theory Spec2Isabelle
  imports Main "HOL-Library.AList"
begin

section \<open>The MCP call proxy (call\_mcp\_remote.py)\<close>

text \<open>
  A shallow embedding of \<^verbatim>\<open>src/call_mcp_remote.py\<close>: the class \<^verbatim>\<open>MCPClient\<close>
  (\<^verbatim>\<open>connect_to_sse_servers\<close>, \<^verbatim>\<open>cleanup\<close>, \<^verbatim>\<open>process_query\<close>) and the request
  handler \<^verbatim>\<open>handle_query\<close>.

  Python strings are modelled as \<open>string\<close> (the bytes of their UTF-8 encoding). Python
  dictionaries keep insertion order and the code depends on it
  (\<^verbatim>\<open>enumerate(self.settion_tools.items())\<close>, \<^verbatim>\<open>list(self.settion_tools.keys())\<close>),
  so a dictionary is an association list; \<^verbatim>\<open>d[k] = v\<close> is \<^const>\<open>AList.update\<close>
  (replace in place, or append at the end) and \<^verbatim>\<open>d[k]\<close> is \<^const>\<open>map_of\<close> with
  \<open>None\<close> read as \<^verbatim>\<open>KeyError\<close>.

  The providers and the model are outside the program. They are a record \<open>env\<close> of
  functions that say what each of their operations answers, and every property below is
  proved for all of them. What the program does to them, and to its transcript, is
  recorded as a list of events in the state, next to the fields of the client; an
  exception does not undo what was done before it, so every operation gives back the
  state together with its outcome.
\<close>

subsection \<open>Flat tool identifiers\<close>

text \<open>
  \<^verbatim>\<open>str(server_idx)\<close> for the non-negative index that \<^verbatim>\<open>enumerate\<close> yields, and
  \<^verbatim>\<open>int(server_index)\<close> for a group matched by \<^verbatim>\<open>\d+\<close>. (CPython refuses
  conversions of more than 4300 digits; no request has that many providers, and the limit
  is not modelled. In a Python pattern on \<^verbatim>\<open>str\<close>, \<^verbatim>\<open>\d\<close> also matches the decimal
  digits of other scripts, which \<^verbatim>\<open>int\<close> accepts; \<open>is_digit\<close> knows the digits 0 to 9,
  the only ones \<^verbatim>\<open>str\<close> writes.)
\<close>

definition digit_char :: "nat \<Rightarrow> char" where
  "digit_char d = char_of (48 + d)"

definition is_digit :: "char \<Rightarrow> bool" where
  "is_digit c = (48 \<le> (of_char c :: nat) \<and> (of_char c :: nat) \<le> 57)"

definition digit_val :: "char \<Rightarrow> nat" where
  "digit_val c = of_char c - 48"

fun str :: "nat \<Rightarrow> string" where
  "str n = (if n < 10 then [digit_char n] else str (n div 10) @ [digit_char (n mod 10)])"

declare str.simps [simp del]

definition int_of :: "string \<Rightarrow> nat" where
  "int_of ds = foldl (\<lambda>acc c. 10 * acc + digit_val c) 0 ds"

text \<open>
  Line 86: \<^verbatim>\<open>f"server_{server_idx}_{tool.name}"\<close>.
\<close>

definition mangle :: "nat \<Rightarrow> string \<Rightarrow> string" where
  "mangle server_idx tool_name = ''server_'' @ str server_idx @ ''_'' @ tool_name"

text \<open>
  Line 132: \<^verbatim>\<open>re.match(r"server_(\d+)_(.+)", s)\<close>. The match is anchored at the start
  of \<open>s\<close> only. \<^verbatim>\<open>\d+\<close> is greedy; giving back digits never helps, since the character
  after a shorter run is a digit and not the underscore the pattern wants, so the first
  group is the whole run of digits. \<^verbatim>\<open>.\<close> matches every character but the line feed
  (the flag DOTALL is not set), so the second group is the longest non-empty run of
  characters up to the first line feed. The result is the pair of groups.
\<close>

definition line_feed :: char where
  "line_feed = CHR 0x0A"

fun strip_prefix :: "string \<Rightarrow> string \<Rightarrow> string option" where
  "strip_prefix [] s = Some s"
| "strip_prefix (p # ps) [] = None"
| "strip_prefix (p # ps) (c # cs) = (if p = c then strip_prefix ps cs else None)"

definition re_match :: "string \<Rightarrow> (string \<times> string) option" where
  "re_match s =
     (case strip_prefix ''server_'' s of
        None \<Rightarrow> None
      | Some r \<Rightarrow>
          (let ds = takeWhile is_digit r in
           if ds = [] then None
           else (case dropWhile is_digit r of
                   [] \<Rightarrow> None
                 | c # r2 \<Rightarrow>
                     if c \<noteq> CHR ''_'' then None
                     else (let nm = takeWhile (\<lambda>c. c \<noteq> line_feed) r2 in
                           if nm = [] then None else Some (ds, nm)))))"

subsection \<open>Exceptions\<close>

text \<open>
  The exceptions the code raises or lets through. \<open>detail\<close> is the \<^verbatim>\<open>detail\<close> of an
  \<^verbatim>\<open>HTTPException\<close>: the four messages the source builds, and \<open>Str e\<close> for
  \<^verbatim>\<open>str(e)\<close> (line 199). \<open>Other\<close> is any exception of a collaborator (the transport
  of a provider, the model backend), named by its message. All of them are instances of
  \<^verbatim>\<open>Exception\<close>; what is not (\<^verbatim>\<open>KeyboardInterrupt\<close>, \<^verbatim>\<open>SystemExit\<close>) is outside
  the model.
\<close>

datatype exc =
    HTTPException (status_code: nat) (detail: detail)
  | TimeoutError
  | KeyError string
  | IndexError
  | JSONDecodeError
  | Other string
and detail =
    NoActiveConnections
  | OpenAICallFailed exc
  | InvalidToolCallFormat string
  | RequestTimeout
  | Str exc

text \<open>
  Lines 132 to 139: the match, the 400 when there is none, and the two groups, the first
  converted as on line 141.
\<close>

definition resolve :: "string \<Rightarrow> exc + (nat \<times> string)" where
  "resolve fname =
     (case re_match fname of
        None \<Rightarrow> Inl (HTTPException 400 (InvalidToolCallFormat fname))
      | Some (server_index, tool_name) \<Rightarrow> Inr (int_of server_index, tool_name))"

subsection \<open>Data\<close>

text \<open>
  \<open>json\<close> is a parsed JSON value, kept opaque (named by a canonical text);
  \<^verbatim>\<open>json.loads\<close> is a parameter of the environment below. \<open>tool\<close> is
  \<^verbatim>\<open>mcp.Tool\<close>, \<open>tool_spec\<close> an entry of \<^verbatim>\<open>available_tools\<close> (lines 83 to 90),
  \<open>tool_call\<close> an entry of \<^verbatim>\<open>message.tool_calls\<close> (its \<^verbatim>\<open>id\<close>,
  \<^verbatim>\<open>function.name\<close> and \<^verbatim>\<open>function.arguments\<close>) and \<open>chat_message\<close> is
  \<^verbatim>\<open>response.choices[0].message\<close>, with \<open>[]\<close> for a \<^verbatim>\<open>tool_calls\<close> that is
  \<^verbatim>\<open>None\<close> or empty: the source only tests its truth value.
\<close>

type_synonym server_name = string

type_synonym json = string

datatype tool = Tool (t_name: string) (t_description: string) (t_inputSchema: json)

datatype tool_spec = Function (f_name: string) (f_description: string) (f_parameters: json)

datatype tool_call = ToolCall (tc_id: string) (tc_name: string) (tc_arguments: string)

datatype chat_message = ChatMessage (content: "string option") (tool_calls: "tool_call list")

text \<open>
  The entries of \<^verbatim>\<open>messages\<close>: the user entry of line 79, the assistant entry of lines
  151 to 163 (one tool call: id, local tool name, \<^verbatim>\<open>json.dumps(tool_args)\<close>) and the
  tool entry of lines 164 to 168 (\<^verbatim>\<open>tool_call_id\<close>, \<^verbatim>\<open>str(result.content)\<close>).
\<close>

datatype message =
    UserMsg string
  | AssistantMsg string string json
  | ToolMsg string string

text \<open>
  What an awaited operation inside \<^verbatim>\<open>process_query\<close> does: it returns, it raises, or it
  is cancelled at its suspension point because the deadline of the enclosing
  \<^verbatim>\<open>asyncio.wait_for\<close> has expired. Real time is not modelled: whether and when the
  deadline expires is the environment's choice. The only suspension point of
  \<^verbatim>\<open>process_query\<close> is the tool call awaited on line 145 (the model is called through
  the synchronous client, which the event loop cannot interrupt), so that is where an
  expired deadline takes effect.
\<close>

datatype 'a outcome = Returned 'a | Raised exc | Cancelled

datatype session = ClientSession server_name

datatype exit_stack = AsyncExitStack server_name

datatype log_entry =
    FailedToConnect server_name exc
  | CleanupError server_name exc
  | OpenAIFailed exc
  | ErrorProcessing exc

text \<open>
  The effects of a request, in the order they happen: the calls to the collaborators with
  what they answered, the calls of \<^verbatim>\<open>logger.error\<close>, and the appends to
  \<^verbatim>\<open>messages\<close>.
\<close>

datatype event =
    Connect server_name string "exc option"
  | ListTools server_name "exc + tool list"
  | Create "message list" "tool_spec list"
  | CallTool server_name string json "string outcome"
  | Append message
  | Close server_name
  | Log log_entry

text \<open>
  The collaborators. \<open>connect\<close> is lines 47 to 50 (\<^verbatim>\<open>sse_client\<close>,
  \<^verbatim>\<open>ClientSession\<close>, \<^verbatim>\<open>initialize\<close>), \<open>None\<close> when all three succeed;
  \<open>list_tools\<close> is line 56; \<open>aclose\<close> is line 68; \<open>create\<close> is
  \<^verbatim>\<open>client.chat.completions.create\<close> followed by \<^verbatim>\<open>.choices[0].message\<close>;
  \<open>call_tool\<close> is line 145, returning \<^verbatim>\<open>str(result.content)\<close>. The first argument
  of \<open>call_tool\<close> is the length of \<^verbatim>\<open>messages\<close> when the call is made, so that a tool
  called twice with the same arguments may answer differently; the transcript given to
  \<open>create\<close> grows from one call to the next, so a function of it stands for any model.
  \<open>json_loads\<close> is \<^verbatim>\<open>json.loads\<close>, \<open>None\<close> when it raises. (A response of the model
  with no \<^verbatim>\<open>choices\<close> is not modelled.)
\<close>

record env =
  connect :: "server_name \<Rightarrow> string \<Rightarrow> exc option"
  list_tools :: "server_name \<Rightarrow> exc + tool list"
  aclose :: "exit_stack \<Rightarrow> exc option"
  create :: "message list \<Rightarrow> tool_spec list \<Rightarrow> exc + chat_message"
  call_tool :: "nat \<Rightarrow> session \<Rightarrow> string \<Rightarrow> json \<Rightarrow> string outcome"
  json_loads :: "string \<Rightarrow> json option"

text \<open>
  Lines 27 to 32, the request; and lines 35 to 39, the fields of the client
  (\<open>exit_stacks\<close> is \<^verbatim>\<open>_exit_stacks\<close>), extended by the events so far. A session and
  an exit stack are named by the provider they were opened for.
\<close>

record MCPConfig =
  mcpServers :: "(server_name \<times> (string \<times> string) list) list"

record UserQuery =
  query :: string
  mcp_config :: MCPConfig

record MCPClient =
  sessions :: "(server_name \<times> session) list"
  settion_tools :: "(server_name \<times> tool list) list"
  exit_stacks :: "(server_name \<times> exit_stack) list"

record state = MCPClient +
  trace :: "event list"

text \<open>Line 194, the answer \<^verbatim>\<open>{"response": response}\<close>.\<close>

datatype response = Response string

definition emit :: "state \<Rightarrow> event list \<Rightarrow> state" where
  "emit st evs = st\<lparr>trace := trace st @ evs\<rparr>"

subsection \<open>MCPClient\<close>

text \<open>Lines 35 to 39.\<close>

definition init :: state where
  "init = \<lparr>sessions = [], settion_tools = [], exit_stacks = [], trace = []\<rparr>"

text \<open>
  Lines 45 to 63, the body of the \<^verbatim>\<open>try\<close> for one provider of type sse and its
  \<^verbatim>\<open>except\<close>. The session and its exit stack are stored before the tools are listed.
\<close>

definition connect_server :: "env \<Rightarrow> server_name \<Rightarrow> (string \<times> string) list \<Rightarrow> state \<Rightarrow> state" where
  "connect_server env server_name server_config st =
     (case map_of server_config ''url'' of
        None \<Rightarrow> emit st [Log (FailedToConnect server_name (KeyError ''url''))]
      | Some url \<Rightarrow>
          (case connect env server_name url of
             Some e \<Rightarrow> emit st [Connect server_name url (Some e), Log (FailedToConnect server_name e)]
           | None \<Rightarrow>
               (let st1 = emit (st\<lparr>sessions := AList.update server_name (ClientSession server_name) (sessions st),
                                     exit_stacks := AList.update server_name (AsyncExitStack server_name) (exit_stacks st)\<rparr>)
                            [Connect server_name url None]
                in case list_tools env server_name of
                     Inl e \<Rightarrow> emit st1 [ListTools server_name (Inl e), Log (FailedToConnect server_name e)]
                   | Inr tools \<Rightarrow>
                       emit (st1\<lparr>settion_tools := AList.update server_name tools (settion_tools st1)\<rparr>)
                         [ListTools server_name (Inr tools)])))"

text \<open>
  Lines 41 to 63. \<^verbatim>\<open>server_config['type']\<close> is read outside the \<^verbatim>\<open>try\<close>.
\<close>

fun connect_to_sse_servers :: "env \<Rightarrow> (server_name \<times> (string \<times> string) list) list \<Rightarrow> state \<Rightarrow> state \<times> exc option" where
  "connect_to_sse_servers env [] st = (st, None)"
| "connect_to_sse_servers env ((server_name, server_config) # rest) st =
     (case map_of server_config ''type'' of
        None \<Rightarrow> (st, Some (KeyError ''type''))
      | Some ty \<Rightarrow>
          if ty = ''sse'' then connect_to_sse_servers env rest (connect_server env server_name server_config st)
          else connect_to_sse_servers env rest st)"

text \<open>Lines 65 to 72.\<close>

fun close_all :: "env \<Rightarrow> (server_name \<times> exit_stack) list \<Rightarrow> state \<Rightarrow> state" where
  "close_all env [] st = st"
| "close_all env ((server_name, stack) # rest) st =
     (case aclose env stack of
        None \<Rightarrow> close_all env rest (emit st [Close server_name])
      | Some e \<Rightarrow> close_all env rest (emit st [Close server_name, Log (CleanupError server_name e)]))"

definition cleanup :: "env \<Rightarrow> state \<Rightarrow> state" where
  "cleanup env st = (close_all env (exit_stacks st) st)\<lparr>sessions := [], settion_tools := []\<rparr>"

text \<open>Lines 82 to 90.\<close>

definition available_tools_of :: "(server_name \<times> tool list) list \<Rightarrow> tool_spec list" where
  "available_tools_of items =
     concat (map (\<lambda>(server_idx, (server_name, tools)).
                    map (\<lambda>tool. Function (mangle server_idx (t_name tool)) (t_description tool) (t_inputSchema tool)) tools)
                 (enumerate 0 items))"

text \<open>
  Lines 128 to 141 and the lookup \<^verbatim>\<open>self.sessions[server_name]\<close> of line 145: what
  one tool call of the model is aimed at. The arguments are parsed first, then the name is
  matched, then the index is looked up in the keys of \<^verbatim>\<open>settion_tools\<close>. The group
  matched by \<^verbatim>\<open>\d+\<close> has no sign, so the index is never negative.
\<close>

definition target :: "env \<Rightarrow> state \<Rightarrow> tool_call \<Rightarrow> exc + (server_name \<times> session \<times> string \<times> json)" where
  "target env st tool_call =
     (case json_loads env (tc_arguments tool_call) of
        None \<Rightarrow> Inl JSONDecodeError
      | Some tool_args \<Rightarrow>
          (case resolve (tc_name tool_call) of
             Inl e \<Rightarrow> Inl e
           | Inr (server_index, tool_name) \<Rightarrow>
               (let keylist = map fst (settion_tools st) in
                if \<not> server_index < length keylist then Inl IndexError
                else (let server_name = keylist ! server_index in
                      case map_of (sessions st) server_name of
                        None \<Rightarrow> Inl (KeyError server_name)
                      | Some session \<Rightarrow> Inr (server_name, session, tool_name, tool_args)))))"

text \<open>
  Lines 128 to 168, the body of the \<^verbatim>\<open>for\<close> loop for one tool call. The only
  \<^verbatim>\<open>await\<close> of \<^verbatim>\<open>process_query\<close> is the call of the tool, so that is where the
  deadline can cancel it. The result is the new value of \<^verbatim>\<open>messages\<close>.
  (\<^verbatim>\<open>tool_results\<close> is written and never read; it is left out.)
\<close>

definition dispatch :: "env \<Rightarrow> state \<Rightarrow> message list \<Rightarrow> tool_call \<Rightarrow> state \<times> message list outcome" where
  "dispatch env st messages tool_call =
     (case target env st tool_call of
        Inl e \<Rightarrow> (st, Raised e)
      | Inr (server_name, session, tool_name, tool_args) \<Rightarrow>
          (let r = call_tool env (length messages) session tool_name tool_args;
               st1 = emit st [CallTool server_name tool_name tool_args r]
           in case r of
                Raised e \<Rightarrow> (st1, Raised e)
              | Cancelled \<Rightarrow> (st1, Cancelled)
              | Returned result \<Rightarrow>
                  (let a = AssistantMsg (tc_id tool_call) tool_name tool_args;
                       t = ToolMsg (tc_id tool_call) result
                   in (emit st1 [Append a, Append t], Returned (messages @ [a, t])))))"

text \<open>Line 127, the \<^verbatim>\<open>for\<close> loop over one response's tool calls.\<close>

fun for_tool_calls :: "env \<Rightarrow> state \<Rightarrow> message list \<Rightarrow> tool_call list \<Rightarrow> state \<times> message list outcome" where
  "for_tool_calls env st messages [] = (st, Returned messages)"
| "for_tool_calls env st messages (tool_call # rest) =
     (case dispatch env st messages tool_call of
        (st1, Returned messages1) \<Rightarrow> for_tool_calls env st1 messages1 rest
      | (st1, Raised e) \<Rightarrow> (st1, Raised e)
      | (st1, Cancelled) \<Rightarrow> (st1, Cancelled))"

text \<open>Lines 179 and 180.\<close>

definition add_content :: "string list \<Rightarrow> chat_message \<Rightarrow> string list" where
  "add_content final_text message =
     (case content message of
        None \<Rightarrow> final_text
      | Some c \<Rightarrow> if c \<noteq> [] then final_text @ [c] else final_text)"

text \<open>
  Lines 126 to 180, one round of the \<^verbatim>\<open>while\<close> loop: the tool calls of
  \<^verbatim>\<open>message\<close>, then the next call of the model. It gives the new values of
  \<^verbatim>\<open>messages\<close>, \<^verbatim>\<open>final_text\<close> and \<^verbatim>\<open>message\<close>.
\<close>

definition loop_body ::
  "env \<Rightarrow> tool_spec list \<Rightarrow> state \<Rightarrow> message list \<Rightarrow> string list \<Rightarrow> chat_message
     \<Rightarrow> state \<times> (message list \<times> string list \<times> chat_message) outcome" where
  "loop_body env available_tools st messages final_text message =
     (case for_tool_calls env st messages (tool_calls message) of
        (st1, Raised e) \<Rightarrow> (st1, Raised e)
      | (st1, Cancelled) \<Rightarrow> (st1, Cancelled)
      | (st1, Returned messages1) \<Rightarrow>
          (let st2 = emit st1 [Create messages1 available_tools]
           in case create env messages1 available_tools of
                Inl e \<Rightarrow> (st2, Raised e)
              | Inr message1 \<Rightarrow> (st2, Returned (messages1, add_content final_text message1, message1))))"

text \<open>
  Lines 125 to 182, the \<^verbatim>\<open>while\<close> loop and the \<^verbatim>\<open>return\<close>. The source puts no bound
  on the number of rounds, so the loop takes fuel, one unit for each round; \<open>None\<close> is a
  loop that has not ended when the fuel is used up.
\<close>

fun while_tool_calls ::
  "nat \<Rightarrow> env \<Rightarrow> tool_spec list \<Rightarrow> state \<Rightarrow> message list \<Rightarrow> string list \<Rightarrow> chat_message
     \<Rightarrow> (state \<times> string outcome) option" where
  "while_tool_calls fuel env available_tools st messages final_text message =
     (if tool_calls message = [] then Some (st, Returned (concat final_text))
      else (case fuel of
              0 \<Rightarrow> None
            | Suc fuel1 \<Rightarrow>
                (case loop_body env available_tools st messages final_text message of
                   (st1, Raised e) \<Rightarrow> Some (st1, Raised e)
                 | (st1, Cancelled) \<Rightarrow> Some (st1, Cancelled)
                 | (st1, Returned (messages1, final_text1, message1)) \<Rightarrow>
                     while_tool_calls fuel1 env available_tools st1 messages1 final_text1 message1)))"

declare while_tool_calls.simps [simp del]

text \<open>Lines 74 to 182.\<close>

definition process_query :: "nat \<Rightarrow> env \<Rightarrow> string \<Rightarrow> state \<Rightarrow> (state \<times> string outcome) option" where
  "process_query fuel env q st =
     (if sessions st = [] then Some (st, Raised (HTTPException 400 NoActiveConnections))
      else (let messages = [UserMsg q];
                available_tools = available_tools_of (settion_tools st);
                st1 = emit st [Create messages available_tools]
            in case create env messages available_tools of
                 Inl e \<Rightarrow> Some (emit st1 [Log (OpenAIFailed e)], Raised (HTTPException 500 (OpenAICallFailed e)))
               | Inr message \<Rightarrow> while_tool_calls fuel env available_tools st1 messages [] message))"

subsection \<open>The request handler\<close>

text \<open>
  \<^verbatim>\<open>asyncio.wait_for(..., timeout=300.0)\<close>: what the coroutine returns or raises, and
  \<^verbatim>\<open>TimeoutError\<close> when the coroutine was cancelled at the deadline.
\<close>

definition wait_for :: "'a outcome \<Rightarrow> exc + 'a" where
  "wait_for r = (case r of Returned x \<Rightarrow> Inr x | Raised e \<Rightarrow> Inl e | Cancelled \<Rightarrow> Inl TimeoutError)"

text \<open>Lines 188 to 196, the body of the outer \<^verbatim>\<open>try\<close>.\<close>

definition handle_query_body :: "nat \<Rightarrow> env \<Rightarrow> UserQuery \<Rightarrow> state \<Rightarrow> (state \<times> (exc + response)) option" where
  "handle_query_body fuel env user_query client =
     (case connect_to_sse_servers env (mcpServers (mcp_config user_query)) client of
        (st1, Some e) \<Rightarrow> Some (st1, Inl e)
      | (st1, None) \<Rightarrow>
          (case process_query fuel env (query user_query) st1 of
             None \<Rightarrow> None
           | Some (st2, r) \<Rightarrow>
               (case wait_for r of
                  Inr response \<Rightarrow> Some (st2, Inr (Response response))
                | Inl e \<Rightarrow>
                    if e = TimeoutError then Some (st2, Inl (HTTPException 504 RequestTimeout))
                    else Some (st2, Inl e))))"

text \<open>
  Lines 186 to 201: the client, the body, the generic \<^verbatim>\<open>except\<close> clause and the
  \<^verbatim>\<open>finally\<close>. \<open>Inl\<close> is the exception that leaves the handler.
\<close>

definition handle_query :: "nat \<Rightarrow> env \<Rightarrow> UserQuery \<Rightarrow> (state \<times> (exc + response)) option" where
  "handle_query fuel env user_query =
     (case handle_query_body fuel env user_query init of
        None \<Rightarrow> None
      | Some (st, Inr response) \<Rightarrow> Some (cleanup env st, Inr response)
      | Some (st, Inl e) \<Rightarrow>
          Some (cleanup env (emit st [Log (ErrorProcessing e)]), Inl (HTTPException 500 (Str e))))"

subsection \<open>Reading a trace\<close>

text \<open>
  The providers closed, the providers connected, the entries appended, the providers
  whose close failed, the providers a connection was tried to, and the providers whose
  connection or tool listing failed, each in the order of the events; the number of calls
  of the model and of calls of a tool.
\<close>

fun closes :: "event list \<Rightarrow> server_name list" where
  "closes [] = []"
| "closes (Close n # evs) = n # closes evs"
| "closes (ev # evs) = closes evs"

fun connected :: "event list \<Rightarrow> server_name list" where
  "connected [] = []"
| "connected (Connect n url None # evs) = n # connected evs"
| "connected (ev # evs) = connected evs"

fun appended :: "event list \<Rightarrow> message list" where
  "appended [] = []"
| "appended (Append m # evs) = m # appended evs"
| "appended (ev # evs) = appended evs"

fun cleanup_errors :: "event list \<Rightarrow> server_name list" where
  "cleanup_errors [] = []"
| "cleanup_errors (Log (CleanupError n e) # evs) = n # cleanup_errors evs"
| "cleanup_errors (ev # evs) = cleanup_errors evs"

fun attempts :: "event list \<Rightarrow> server_name list" where
  "attempts [] = []"
| "attempts (Connect n url r # evs) = n # attempts evs"
| "attempts (ev # evs) = attempts evs"

fun connect_failures :: "event list \<Rightarrow> server_name list" where
  "connect_failures [] = []"
| "connect_failures (Log (FailedToConnect n e) # evs) = n # connect_failures evs"
| "connect_failures (ev # evs) = connect_failures evs"


definition tool_calls_made :: "event list \<Rightarrow> nat" where
  "tool_calls_made evs = length (filter (\<lambda>ev. case ev of CallTool s n a r \<Rightarrow> True | _ \<Rightarrow> False) evs)"

text \<open>
  The three effects of a tool call that returns: the call, the assistant entry and the
  tool entry.
\<close>

definition call_events :: "tool_call \<Rightarrow> server_name \<Rightarrow> string \<Rightarrow> json \<Rightarrow> string \<Rightarrow> event list" where
  "call_events tool_call server_name tool_name tool_args result =
     [CallTool server_name tool_name tool_args (Returned result),
      Append (AssistantMsg (tc_id tool_call) tool_name tool_args),
      Append (ToolMsg (tc_id tool_call) result)]"

text \<open>
  One tool call that returned, with what it was aimed at and its result; its effects, its
  transcript entries, and that it was aimed where \<open>target\<close> says.
\<close>

type_synonym step = "tool_call \<times> server_name \<times> string \<times> json \<times> string"

definition step_events :: "step \<Rightarrow> event list" where
  "step_events x = (case x of (tool_call, server_name, tool_name, tool_args, result) \<Rightarrow>
     call_events tool_call server_name tool_name tool_args result)"




text \<open>What leaves the body of the handler when a tool call does not return.\<close>

definition raised_by :: "string outcome \<Rightarrow> exc" where
  "raised_by oc =
     (case oc of
        Raised e \<Rightarrow> if e = TimeoutError then HTTPException 504 RequestTimeout else e
      | _ \<Rightarrow> HTTPException 504 RequestTimeout)"

text \<open>
  The effects of closing a list of exit stacks in order.
\<close>

definition close_events :: "env \<Rightarrow> (server_name \<times> exit_stack) list \<Rightarrow> event list" where
  "close_events env xs =
     concat (map (\<lambda>(n, stack). case aclose env stack of
                                  None \<Rightarrow> [Close n]
                                | Some e \<Rightarrow> [Close n, Log (CleanupError n e)]) xs)"

text \<open>
  Every tool entry of a transcript comes right after an assistant entry with the same
  tool-call id; \<open>prev\<close> is the entry before the list, if there is one.
\<close>

fun preceded_from :: "message option \<Rightarrow> message list \<Rightarrow> bool" where
  "preceded_from prev [] = True"
| "preceded_from prev (ToolMsg i c # ms) =
     ((case prev of Some (AssistantMsg j n a) \<Rightarrow> j = i | _ \<Rightarrow> False)
      \<and> preceded_from (Some (ToolMsg i c)) ms)"
| "preceded_from prev (m # ms) = preceded_from (Some m) ms"

definition tool_entries_preceded :: "message list \<Rightarrow> bool" where
  "tool_entries_preceded ms = preceded_from None ms"

text \<open>
  The value of \<^verbatim>\<open>messages\<close> after the first \<open>k\<close> effects of \<^verbatim>\<open>process_query\<close>:
  the user entry of line 79 and the entries appended by then.
\<close>

definition transcript_at :: "string \<Rightarrow> event list \<Rightarrow> nat \<Rightarrow> message list" where
  "transcript_at q evs k = UserMsg q # appended (take k evs)"

text \<open>
  Auxiliary readings used in the proofs below: no tool call in the events failed or was
  cancelled; the appended entries come in pairs of an assistant entry and a tool entry with
  the same id; every call of the model was given the entries appended so far; the three
  together for the events of \<^verbatim>\<open>process_query\<close>, which closes and connects nothing;
  and how the events end for each outcome.
\<close>

fun quiet :: "event list \<Rightarrow> bool" where
  "quiet [] = True"
| "quiet (CallTool s n a (Returned r) # evs) = quiet evs"
| "quiet (CallTool s n a r # evs) = False"
| "quiet (ev # evs) = quiet evs"

fun paired :: "message list \<Rightarrow> bool" where
  "paired [] = True"
| "paired (AssistantMsg i n a # ToolMsg j c # ms) = (i = j \<and> paired ms)"
| "paired ms = False"

fun creates_ok :: "message list \<Rightarrow> event list \<Rightarrow> bool" where
  "creates_ok T [] = True"
| "creates_ok T (Create msgs tools # evs) = (msgs = T \<and> creates_ok T evs)"
| "creates_ok T (Append m # evs) = creates_ok (T @ [m]) evs"
| "creates_ok T (ev # evs) = creates_ok T evs"

definition seg :: "message list \<Rightarrow> event list \<Rightarrow> bool" where
  "seg T evs = (closes evs = [] \<and> connected evs = [] \<and> paired (appended evs) \<and> creates_ok T evs)"

definition ending :: "event list \<Rightarrow> 'a outcome \<Rightarrow> bool" where
  "ending evs r =
     ((quiet evs \<and> r \<noteq> Cancelled)
      \<or> (\<exists>evs0 srv n a e. evs = evs0 @ [CallTool srv n a (Raised e)] \<and> quiet evs0 \<and> r = Raised e)
      \<or> (\<exists>evs0 srv n a. evs = evs0 @ [CallTool srv n a Cancelled] \<and> quiet evs0 \<and> r = Cancelled))"

subsection \<open>Reading a configuration\<close>

text \<open>
  What the configuration and the environment say about one provider: its configuration
  has a type; the type is sse; connecting succeeds (there is a url and lines 47 to 50 do
  not raise); listing its tools succeeds, and the tools listed; it connects, and it both
  connects and lists its tools.
\<close>

definition has_type :: "server_name \<times> (string \<times> string) list \<Rightarrow> bool" where
  "has_type p = (map_of (snd p) ''type'' \<noteq> None)"

definition sse :: "server_name \<times> (string \<times> string) list \<Rightarrow> bool" where
  "sse p = (map_of (snd p) ''type'' = Some ''sse'')"

definition connect_ok :: "env \<Rightarrow> server_name \<times> (string \<times> string) list \<Rightarrow> bool" where
  "connect_ok env p =
     (case map_of (snd p) ''url'' of None \<Rightarrow> False | Some url \<Rightarrow> connect env (fst p) url = None)"

definition list_ok :: "env \<Rightarrow> server_name \<times> (string \<times> string) list \<Rightarrow> bool" where
  "list_ok env p = (case list_tools env (fst p) of Inl e \<Rightarrow> False | Inr tools \<Rightarrow> True)"

definition listed :: "env \<Rightarrow> server_name \<Rightarrow> tool list" where
  "listed env n = (case list_tools env n of Inl e \<Rightarrow> [] | Inr tools \<Rightarrow> tools)"

definition connects :: "env \<Rightarrow> server_name \<times> (string \<times> string) list \<Rightarrow> bool" where
  "connects env p = (sse p \<and> connect_ok env p)"

definition lists :: "env \<Rightarrow> server_name \<times> (string \<times> string) list \<Rightarrow> bool" where
  "lists env p = (connects env p \<and> list_ok env p)"

text \<open>
  No name of the configuration is a key of the client's dictionaries yet.
\<close>

definition fresh :: "(server_name \<times> (string \<times> string) list) list \<Rightarrow> state \<Rightarrow> bool" where
  "fresh cfg st = (fst ` set cfg \<inter> fst ` set (sessions st) = {}
     \<and> fst ` set cfg \<inter> fst ` set (exit_stacks st) = {}
     \<and> fst ` set cfg \<inter> fst ` set (settion_tools st) = {})"

subsection \<open>Requests to try the definitions on\<close>

text \<open>
  One provider with a tool \<open>search\<close>; the model asks for one call of it, with the
  arguments \<^verbatim>\<open>{}\<close>, and then answers. The only arguments text that these requests
  hand to \<^verbatim>\<open>json.loads\<close> is \<^verbatim>\<open>{}\<close>, which it accepts. The client once the
  provider is connected, and the client and the effects at the end of the request.
\<close>

definition scenario_env :: env where
  "scenario_env =
     \<lparr>connect = (\<lambda>n url. None),
      list_tools = (\<lambda>n. Inr [Tool ''search'' ''web search'' ''{}'']),
      aclose = (\<lambda>s. None),
      create = (\<lambda>msgs tools.
        if length msgs = 1
        then Inr (ChatMessage None [ToolCall ''call_1'' ''server_0_search'' ''{}''])
        else Inr (ChatMessage (Some ''Found 3 results.'') [])),
      call_tool = (\<lambda>k s n a. Returned ''3 results''),
      json_loads = (\<lambda>s. if s = ''{}'' then Some s else None)\<rparr>"

definition scenario_query :: UserQuery where
  "scenario_query =
     \<lparr>query = ''how many cats'',
      mcp_config = \<lparr>mcpServers = [(''a'', [(''type'', ''sse''), (''url'', ''http://a'')])]\<rparr>\<rparr>"

definition scenario_connected :: state where
  "scenario_connected =
     \<lparr>sessions = [(''a'', ClientSession ''a'')],
      settion_tools = [(''a'', [Tool ''search'' ''web search'' ''{}''])],
      exit_stacks = [(''a'', AsyncExitStack ''a'')],
      trace = [Connect ''a'' ''http://a'' None,
               ListTools ''a'' (Inr [Tool ''search'' ''web search'' ''{}''])]\<rparr>"

definition scenario_final :: state where
  "scenario_final =
     \<lparr>sessions = [], settion_tools = [],
            exit_stacks = [(''a'', AsyncExitStack ''a'')],
            trace = [Connect ''a'' ''http://a'' None,
                     ListTools ''a'' (Inr [Tool ''search'' ''web search'' ''{}'']),
                     Create [UserMsg ''how many cats''] [Function ''server_0_search'' ''web search'' ''{}''],
                     CallTool ''a'' ''search'' ''{}'' (Returned ''3 results''),
                     Append (AssistantMsg ''call_1'' ''search'' ''{}''),
                     Append (ToolMsg ''call_1'' ''3 results''),
                     Create [UserMsg ''how many cats'', AssistantMsg ''call_1'' ''search'' ''{}'',
                             ToolMsg ''call_1'' ''3 results'']
                       [Function ''server_0_search'' ''web search'' ''{}''],
                     Close ''a'']\<rparr>"

text \<open>
  The same request with a model that answers \<open>T\<close> at once, without asking for a tool.
\<close>

definition direct_env :: env where
  "direct_env = scenario_env\<lparr>create := (\<lambda>msgs tools. Inr (ChatMessage (Some ''T'') []))\<rparr>"

definition direct_final :: state where
  "direct_final =
     \<lparr>sessions = [], settion_tools = [],
      exit_stacks = [(''a'', AsyncExitStack ''a'')],
      trace = [Connect ''a'' ''http://a'' None,
               ListTools ''a'' (Inr [Tool ''search'' ''web search'' ''{}'']),
               Create [UserMsg ''how many cats''] [Function ''server_0_search'' ''web search'' ''{}''],
               Close ''a'']\<rparr>"

text \<open>
  The same request with no provider configured.
\<close>

definition no_provider_query :: UserQuery where
  "no_provider_query = \<lparr>query = ''how many cats'', mcp_config = \<lparr>mcpServers = []\<rparr>\<rparr>"

text \<open>
  The same request with a model that asks for a tool under a name that does not match the
  pattern, and with one that asks for a tool of provider 7.
\<close>

definition malformed_env :: env where
  "malformed_env = scenario_env\<lparr>create := (\<lambda>msgs tools.
     Inr (ChatMessage None [ToolCall ''call_1'' ''search'' ''{}'']))\<rparr>"

definition out_of_range_env :: env where
  "out_of_range_env = scenario_env\<lparr>create := (\<lambda>msgs tools.
     Inr (ChatMessage None [ToolCall ''call_1'' ''server_7_search'' ''{}'']))\<rparr>"



text \<open>
  The same request with a tool call that is still awaited when the deadline expires: the
  client when \<^verbatim>\<open>process_query\<close> is left, and at the end of the request.
\<close>

definition expiring_env :: env where
  "expiring_env = scenario_env\<lparr>call_tool := (\<lambda>k s n a. Cancelled)\<rparr>"

definition expiring_state :: state where
  "expiring_state =
     \<lparr>sessions = [(''a'', ClientSession ''a'')],
      settion_tools = [(''a'', [Tool ''search'' ''web search'' ''{}''])],
      exit_stacks = [(''a'', AsyncExitStack ''a'')],
      trace = [Connect ''a'' ''http://a'' None,
               ListTools ''a'' (Inr [Tool ''search'' ''web search'' ''{}'']),
               Create [UserMsg ''how many cats''] [Function ''server_0_search'' ''web search'' ''{}''],
               CallTool ''a'' ''search'' ''{}'' Cancelled]\<rparr>"

definition expiring_final :: state where
  "expiring_final =
     \<lparr>sessions = [], settion_tools = [],
      exit_stacks = [(''a'', AsyncExitStack ''a'')],
      trace = [Connect ''a'' ''http://a'' None,
               ListTools ''a'' (Inr [Tool ''search'' ''web search'' ''{}'']),
               Create [UserMsg ''how many cats''] [Function ''server_0_search'' ''web search'' ''{}''],
               CallTool ''a'' ''search'' ''{}'' Cancelled,
               Log (ErrorProcessing (HTTPException 504 RequestTimeout)),
               Close ''a'']\<rparr>"

text \<open>
  The same request with a provider that connects and then fails to list its tools; and a
  configuration of three providers, the second not of type sse and the third refusing the
  connection.
\<close>

definition no_tools_env :: env where
  "no_tools_env = scenario_env\<lparr>list_tools := (\<lambda>n. Inl (Other ''no tools''))\<rparr>"

definition no_tools_state :: state where
  "no_tools_state =
     \<lparr>sessions = [(''a'', ClientSession ''a'')],
      settion_tools = [],
      exit_stacks = [(''a'', AsyncExitStack ''a'')],
      trace = [Connect ''a'' ''http://a'' None,
               ListTools ''a'' (Inl (Other ''no tools'')),
               Log (FailedToConnect ''a'' (Other ''no tools''))]\<rparr>"

definition refusing_env :: env where
  "refusing_env = scenario_env\<lparr>connect := (\<lambda>n url. if n = ''c'' then Some (Other ''refused'') else None)\<rparr>"

definition three_providers :: "(server_name \<times> (string \<times> string) list) list" where
  "three_providers =
     [(''a'', [(''type'', ''sse''), (''url'', ''http://a'')]),
      (''b'', [(''type'', ''stdio''), (''command'', ''run'')]),
      (''c'', [(''type'', ''sse''), (''url'', ''http://c'')])]"

text \<open>
  Two providers that both have a tool \<open>x\<close>; the model asks for both in one response and
  then answers; closing the first provider fails. The client once the providers are
  connected, the catalog, the response of the model, the two calls, the transcript after
  them, the client after the first call of the model and after the round, and the client
  at the end of the request.
\<close>

definition two_env :: env where
  "two_env =
     \<lparr>connect = (\<lambda>n url. None),
      list_tools = (\<lambda>n. Inr [Tool ''x'' ''tool x'' ''{}'']),
      aclose = (\<lambda>s. if s = AsyncExitStack ''a'' then Some (Other ''close failed'') else None),
      create = (\<lambda>msgs tools.
        if length msgs = 1
        then Inr (ChatMessage (Some ''calling'')
                    [ToolCall ''c1'' ''server_0_x'' ''{}'', ToolCall ''c2'' ''server_1_x'' ''{}''])
        else Inr (ChatMessage (Some ''done'') [])),
      call_tool = (\<lambda>k s n a. case s of ClientSession p \<Rightarrow> Returned (''result of '' @ p)),
      json_loads = (\<lambda>s. if s = ''{}'' then Some s else None)\<rparr>"

definition two_query :: UserQuery where
  "two_query =
     \<lparr>query = ''q'',
      mcp_config = \<lparr>mcpServers = [(''a'', [(''type'', ''sse''), (''url'', ''u'')]),
                                    (''b'', [(''type'', ''sse''), (''url'', ''v'')])]\<rparr>\<rparr>"

definition two_connected :: state where
  "two_connected =
     \<lparr>sessions = [(''a'', ClientSession ''a''), (''b'', ClientSession ''b'')],
      settion_tools = [(''a'', [Tool ''x'' ''tool x'' ''{}'']), (''b'', [Tool ''x'' ''tool x'' ''{}''])],
      exit_stacks = [(''a'', AsyncExitStack ''a''), (''b'', AsyncExitStack ''b'')],
      trace = [Connect ''a'' ''u'' None,
               ListTools ''a'' (Inr [Tool ''x'' ''tool x'' ''{}'']),
               Connect ''b'' ''v'' None,
               ListTools ''b'' (Inr [Tool ''x'' ''tool x'' ''{}''])]\<rparr>"

definition two_tools :: "tool_spec list" where
  "two_tools = [Function ''server_0_x'' ''tool x'' ''{}'', Function ''server_1_x'' ''tool x'' ''{}'']"


definition two_steps :: "step list" where
  "two_steps =
     [(ToolCall ''c1'' ''server_0_x'' ''{}'', ''a'', ''x'', ''{}'', ''result of a''),
      (ToolCall ''c2'' ''server_1_x'' ''{}'', ''b'', ''x'', ''{}'', ''result of b'')]"

definition two_transcript :: "message list" where
  "two_transcript =
     [UserMsg ''q'', AssistantMsg ''c1'' ''x'' ''{}'', ToolMsg ''c1'' ''result of a'',
      AssistantMsg ''c2'' ''x'' ''{}'', ToolMsg ''c2'' ''result of b'']"

definition two_started :: state where
  "two_started = emit two_connected [Create [UserMsg ''q''] two_tools]"

definition two_round_state :: state where
  "two_round_state =
     emit two_started (concat (map step_events two_steps) @ [Create two_transcript two_tools])"

definition two_final :: state where
  "two_final =
     \<lparr>sessions = [], settion_tools = [],
            exit_stacks = [(''a'', AsyncExitStack ''a''), (''b'', AsyncExitStack ''b'')],
            trace = [Connect ''a'' ''u'' None,
                     ListTools ''a'' (Inr [Tool ''x'' ''tool x'' ''{}'']),
                     Connect ''b'' ''v'' None,
                     ListTools ''b'' (Inr [Tool ''x'' ''tool x'' ''{}'']),
                     Create [UserMsg ''q'']
                       [Function ''server_0_x'' ''tool x'' ''{}'', Function ''server_1_x'' ''tool x'' ''{}''],
                     CallTool ''a'' ''x'' ''{}'' (Returned ''result of a''),
                     Append (AssistantMsg ''c1'' ''x'' ''{}''),
                     Append (ToolMsg ''c1'' ''result of a''),
                     CallTool ''b'' ''x'' ''{}'' (Returned ''result of b''),
                     Append (AssistantMsg ''c2'' ''x'' ''{}''),
                     Append (ToolMsg ''c2'' ''result of b''),
                     Create [UserMsg ''q'', AssistantMsg ''c1'' ''x'' ''{}'', ToolMsg ''c1'' ''result of a'',
                             AssistantMsg ''c2'' ''x'' ''{}'', ToolMsg ''c2'' ''result of b'']
                       [Function ''server_0_x'' ''tool x'' ''{}'', Function ''server_1_x'' ''tool x'' ''{}''],
                     Close ''a'', Log (CleanupError ''a'' (Other ''close failed'')),
                     Close ''b'']\<rparr>"

section \<open>Properties\<close>

subsection \<open>Flat tool identifiers\<close>

lemma is_digit_digit_char: "d < 10 \<Longrightarrow> is_digit (digit_char d)"
  by (simp add: is_digit_def digit_char_def)

lemma digit_val_digit_char: "d < 10 \<Longrightarrow> digit_val (digit_char d) = d"
  by (simp add: digit_val_def digit_char_def)

lemma str_digits: "\<forall>c \<in> set (str n). is_digit c"
proof (induction n rule: str.induct)
  case (1 n)
  show ?case
  proof (cases "n < 10")
    case True
    then show ?thesis by (subst str.simps) (simp add: is_digit_digit_char)
  next
    case False
    with "1" show ?thesis by (subst str.simps) (simp add: is_digit_digit_char)
  qed
qed

lemma str_nonempty: "str n \<noteq> []"
  by (subst str.simps) simp

lemma int_of_snoc: "int_of (ds @ [c]) = 10 * int_of ds + digit_val c"
  by (simp add: int_of_def)

lemma int_of_str: "int_of (str n) = n"
proof (induction n rule: str.induct)
  case (1 n)
  show ?case
  proof (cases "n < 10")
    case True
    then show ?thesis
      by (subst str.simps) (simp add: int_of_def digit_val_digit_char)
  next
    case False
    with "1" show ?thesis
      by (subst str.simps) (simp add: int_of_snoc digit_val_digit_char)
  qed
qed

lemma underscore_not_digit: "\<not> is_digit CHR ''_''"
  by (simp add: is_digit_def)

lemma takeWhile_digits: "\<forall>c \<in> set ds. is_digit c \<Longrightarrow> takeWhile is_digit (ds @ CHR ''_'' # r) = ds"
  by (induction ds) (simp_all add: underscore_not_digit)

lemma dropWhile_digits: "\<forall>c \<in> set ds. is_digit c \<Longrightarrow> dropWhile is_digit (ds @ CHR ''_'' # r) = CHR ''_'' # r"
  by (induction ds) (simp_all add: underscore_not_digit)

lemma strip_prefix_append: "strip_prefix p (p @ s) = Some s"
  by (induction p) simp_all

lemma re_match_built:
  assumes "ds \<noteq> []" and "\<forall>c \<in> set ds. is_digit c"
  shows "re_match (''server_'' @ ds @ ''_'' @ r) =
           (let nm = takeWhile (\<lambda>c. c \<noteq> line_feed) r in if nm = [] then None else Some (ds, nm))"
proof -
  have p: "strip_prefix ''server_'' (''server_'' @ ds @ ''_'' @ r) = Some (ds @ CHR ''_'' # r)"
    using strip_prefix_append [of "''server_''" "ds @ CHR ''_'' # r"] by simp
  have t: "takeWhile is_digit (ds @ CHR ''_'' # r) = ds"
    using assms(2) by (rule takeWhile_digits)
  have d: "dropWhile is_digit (ds @ CHR ''_'' # r) = CHR ''_'' # r"
    using assms(2) by (rule dropWhile_digits)
  show ?thesis
    using assms(1) by (simp add: re_match_def Let_def t d)
qed

lemma re_match_mangle:
  "re_match (mangle i nm) =
     (let g = takeWhile (\<lambda>c. c \<noteq> line_feed) nm in if g = [] then None else Some (str i, g))"
  unfolding mangle_def by (rule re_match_built) (simp_all add: str_nonempty str_digits)

lemma mangle_inj: "mangle i x = mangle j y \<Longrightarrow> i = j \<and> x = y"
proof -
  assume "mangle i x = mangle j y"
  then have eq: "str i @ CHR ''_'' # x = str j @ CHR ''_'' # y"
    by (simp add: mangle_def)
  have "takeWhile is_digit (str i @ CHR ''_'' # x) = str i"
    by (rule takeWhile_digits) (rule str_digits)
  moreover have "takeWhile is_digit (str j @ CHR ''_'' # y) = str j"
    by (rule takeWhile_digits) (rule str_digits)
  ultimately have s: "str i = str j" using eq by simp
  then have "int_of (str i) = int_of (str j)" by simp
  then have "i = j" by (simp add: int_of_str)
  with eq s show ?thesis by simp
qed

lemma strip_prefix_Some: "strip_prefix p s = Some r \<Longrightarrow> s = p @ r"
  by (induction p s rule: strip_prefix.induct) (simp_all split: if_splits)

text \<open>
  \<open>re_match\<close> against the pattern read as a set of strings: there is a match exactly when
  the string starts with \<open>server_\<close>, at least one digit, an underscore and at least one
  character that is not a line feed; and the groups are those of the greedy match, the
  second reaching to the end of the string or to the first line feed.
\<close>

lemma re_match_Some_iff:
  "re_match s = Some (ds, nm) \<longleftrightarrow>
     (\<exists>rest. s = ''server_'' @ ds @ ''_'' @ nm @ rest
        \<and> ds \<noteq> [] \<and> (\<forall>c \<in> set ds. is_digit c)
        \<and> nm \<noteq> [] \<and> line_feed \<notin> set nm
        \<and> (rest = [] \<or> hd rest = line_feed))"
proof
  assume m: "re_match s = Some (ds, nm)"
  then obtain r where r: "strip_prefix ''server_'' s = Some r"
    by (auto simp add: re_match_def split: option.splits)
  then have s: "s = ''server_'' @ r" by (rule strip_prefix_Some)
  from m r obtain r2 where
    d: "ds = takeWhile is_digit r" "ds \<noteq> []" "dropWhile is_digit r = CHR ''_'' # r2"
    and n: "nm = takeWhile (\<lambda>c. c \<noteq> line_feed) r2" "nm \<noteq> []"
    by (auto simp add: re_match_def Let_def split: list.splits if_splits)
  let ?rest = "dropWhile (\<lambda>c. c \<noteq> line_feed) r2"
  have "r = ds @ CHR ''_'' # r2"
    using takeWhile_dropWhile_id [of is_digit r] d by simp
  moreover have "r2 = nm @ ?rest"
    using n by simp
  ultimately have "s = ''server_'' @ ds @ ''_'' @ nm @ ?rest"
    using s by simp
  moreover have "\<forall>c \<in> set ds. is_digit c"
    using d(1) by (auto dest: set_takeWhileD)
  moreover have "line_feed \<notin> set nm"
    using n(1) by (auto dest: set_takeWhileD)
  moreover have "?rest = [] \<or> hd ?rest = line_feed"
    using hd_dropWhile [of "\<lambda>c. c \<noteq> line_feed" r2] by auto
  ultimately show "\<exists>rest. s = ''server_'' @ ds @ ''_'' @ nm @ rest
        \<and> ds \<noteq> [] \<and> (\<forall>c \<in> set ds. is_digit c)
        \<and> nm \<noteq> [] \<and> line_feed \<notin> set nm
        \<and> (rest = [] \<or> hd rest = line_feed)"
    using d(2) n(2) by blast
next
  assume "\<exists>rest. s = ''server_'' @ ds @ ''_'' @ nm @ rest
        \<and> ds \<noteq> [] \<and> (\<forall>c \<in> set ds. is_digit c)
        \<and> nm \<noteq> [] \<and> line_feed \<notin> set nm
        \<and> (rest = [] \<or> hd rest = line_feed)"
  then obtain rest where a: "s = ''server_'' @ ds @ ''_'' @ nm @ rest"
    "ds \<noteq> []" "\<forall>c \<in> set ds. is_digit c" "nm \<noteq> []" "line_feed \<notin> set nm"
    "rest = [] \<or> hd rest = line_feed"
    by blast
  have "takeWhile (\<lambda>c. c \<noteq> line_feed) (nm @ rest) = nm"
  proof (cases rest)
    case Nil
    with a(5) show ?thesis by (auto simp add: takeWhile_eq_all_conv)
  next
    case (Cons c cs)
    with a(6) have "c = line_feed" by simp
    with Cons a(5) show ?thesis by (auto simp add: takeWhile_tail)
  qed
  with a(4) show "re_match s = Some (ds, nm)"
    unfolding a(1) re_match_built [OF a(2) a(3)] Let_def by simp
qed

lemma re_match_None_iff:
  "re_match s = None \<longleftrightarrow>
     \<not> (\<exists>ds nm rest. s = ''server_'' @ ds @ ''_'' @ nm @ rest
           \<and> ds \<noteq> [] \<and> (\<forall>c \<in> set ds. is_digit c) \<and> nm \<noteq> [] \<and> line_feed \<notin> set nm)"
proof
  assume n: "re_match s = None"
  show "\<not> (\<exists>ds nm rest. s = ''server_'' @ ds @ ''_'' @ nm @ rest
           \<and> ds \<noteq> [] \<and> (\<forall>c \<in> set ds. is_digit c) \<and> nm \<noteq> [] \<and> line_feed \<notin> set nm)"
  proof
    assume "\<exists>ds nm rest. s = ''server_'' @ ds @ ''_'' @ nm @ rest
           \<and> ds \<noteq> [] \<and> (\<forall>c \<in> set ds. is_digit c) \<and> nm \<noteq> [] \<and> line_feed \<notin> set nm"
    then obtain ds nm rest where a: "s = ''server_'' @ ds @ ''_'' @ nm @ rest"
      "ds \<noteq> []" "\<forall>c \<in> set ds. is_digit c" "nm \<noteq> []" "line_feed \<notin> set nm"
      by blast
    from a(4) obtain c cs where nm: "nm = c # cs" by (cases nm) auto
    with a(5) have "takeWhile (\<lambda>c. c \<noteq> line_feed) (nm @ rest) \<noteq> []" by auto
    then have "re_match s \<noteq> None"
      unfolding a(1) re_match_built [OF a(2) a(3)] Let_def by simp
    with n show False by simp
  qed
next
  assume a: "\<not> (\<exists>ds nm rest. s = ''server_'' @ ds @ ''_'' @ nm @ rest
           \<and> ds \<noteq> [] \<and> (\<forall>c \<in> set ds. is_digit c) \<and> nm \<noteq> [] \<and> line_feed \<notin> set nm)"
  show "re_match s = None"
  proof (cases "re_match s")
    case None
    then show ?thesis .
  next
    case (Some g)
    obtain ds nm where "g = (ds, nm)" by (cases g)
    with Some have "re_match s = Some (ds, nm)" by simp
    then have "\<exists>rest. s = ''server_'' @ ds @ ''_'' @ nm @ rest
        \<and> ds \<noteq> [] \<and> (\<forall>c \<in> set ds. is_digit c)
        \<and> nm \<noteq> [] \<and> line_feed \<notin> set nm
        \<and> (rest = [] \<or> hd rest = line_feed)"
      by (simp only: re_match_Some_iff)
    with a show ?thesis by blast
  qed
qed

lemma resolve_mangle:
  assumes "tool_name \<noteq> []" and "line_feed \<notin> set tool_name"
  shows "resolve (mangle i tool_name) = Inr (i, tool_name)"
proof -
  from assms(2) have "takeWhile (\<lambda>c. c \<noteq> line_feed) tool_name = tool_name"
    by (auto simp add: takeWhile_eq_all_conv)
  then have "re_match (mangle i tool_name) = Some (str i, tool_name)"
    unfolding re_match_mangle Let_def using assms(1) by (simp only: if_False)
  then show ?thesis
    by (simp add: resolve_def int_of_str)
qed

text \<open>
  The identifiers of the catalog come back: when the tool \<open>tool_name\<close> is offered for the
  provider at position \<open>i\<close>, a call of the model under the identifier built for it is
  aimed at that provider and that tool.
\<close>

lemma target_of_flat_identifier:
  assumes "i < length (settion_tools st)"
    and "map_of (sessions st) (map fst (settion_tools st) ! i) = Some session"
    and "json_loads env arguments = Some tool_args"
    and "tool_name \<noteq> []" and "line_feed \<notin> set tool_name"
  shows "target env st (ToolCall call_id (mangle i tool_name) arguments)
           = Inr (map fst (settion_tools st) ! i, session, tool_name, tool_args)"
proof -
  from assms(4,5) have "resolve (mangle i tool_name) = Inr (i, tool_name)"
    by (rule resolve_mangle)
  with assms(1,2,3) show ?thesis
    by (simp add: target_def)
qed

lemma digit_char_0: "digit_char 0 = CHR ''0''"
  unfolding digit_char_def by code_simp

lemma digit_char_1: "digit_char (Suc 0) = CHR ''1''"
  unfolding digit_char_def by code_simp

lemma str_0: "str 0 = ''0''"
  by (subst str.simps) (simp add: digit_char_0)

lemma str_1: "str 1 = ''1''"
  by (subst str.simps) (simp add: digit_char_1)

text \<open>
  The second group stops at a line feed: a tool name that holds one does not come back,
  and the dispatcher would call the provider with the part before it.
\<close>

lemma resolve_stops_at_line_feed:
  "resolve (mangle 0 (''a'' @ [line_feed] @ ''b'')) = Inr (0, ''a'')"
  by code_simp

text \<open>
  C1, as stated, fails: the pattern wants at least one character after the second
  underscore, so the identifier built for provider 0 and the empty tool name is refused
  with the 400 of line 134 instead of giving back the pair.
\<close>

theorem flat_identifier_empty_name_counterexample:
  "resolve (mangle 0 []) = Inl (HTTPException 400 (InvalidToolCallFormat ''server_0_''))
   \<and> resolve (mangle 0 []) \<noteq> Inr (0, [])"
  by code_simp

text \<open>
  C1 (amended): for every provider ordinal and every local tool name that is not empty and
  holds no line feed, decoding the flat identifier built from the pair gives the pair
  back; and the identifiers built for one tool name at two different ordinals differ, so
  each resolves to its own provider.
\<close>

theorem flat_identifier_roundtrip:
  "tool_name \<noteq> [] \<Longrightarrow> line_feed \<notin> set tool_name \<Longrightarrow>
     resolve (mangle i tool_name) = Inr (i, tool_name)
     \<and> (i \<noteq> j \<longrightarrow> mangle i tool_name \<noteq> mangle j tool_name)"
proof -
  assume "tool_name \<noteq> []" and "line_feed \<notin> set tool_name"
  then have "resolve (mangle i tool_name) = Inr (i, tool_name)"
    by (rule resolve_mangle)
  moreover have "i \<noteq> j \<longrightarrow> mangle i tool_name \<noteq> mangle j tool_name"
    using mangle_inj by blast
  ultimately show ?thesis by simp
qed

theorem flat_identifier_roundtrip_witness:
  "resolve (mangle 0 ''search'') = Inr (0, ''search'')
   \<and> resolve (mangle 1 ''search'') = Inr (1, ''search'')
   \<and> mangle 0 ''search'' \<noteq> mangle 1 ''search''"
  using flat_identifier_roundtrip [of "''search''" 0 1]
        flat_identifier_roundtrip [of "''search''" 1 0]
  by (simp add: line_feed_def)

subsection \<open>The effects of the conversation loop\<close>

lemma emit_Nil: "emit st [] = st"
  by (simp add: emit_def)

lemma emit_emit: "emit (emit st a) b = emit st (a @ b)"
  by (simp add: emit_def)

lemma emit_fields:
  "sessions (emit st evs) = sessions st"
  "settion_tools (emit st evs) = settion_tools st"
  "exit_stacks (emit st evs) = exit_stacks st"
  "trace (emit st evs) = trace st @ evs"
  by (simp_all add: emit_def)


lemma closes_append: "closes (a @ b) = closes a @ closes b"
  by (induction a rule: closes.induct) simp_all

lemma connected_append: "connected (a @ b) = connected a @ connected b"
  by (induction a rule: connected.induct) simp_all

lemma appended_append: "appended (a @ b) = appended a @ appended b"
  by (induction a rule: appended.induct) simp_all

lemma dispatch_cases:
  assumes "dispatch env st messages tc = (st', r)"
  obtains
    (refused) e where "target env st tc = Inl e" "st' = st" "r = Raised e"
  | (raised) srv s n a e where "target env st tc = Inr (srv, s, n, a)"
      "call_tool env (length messages) s n a = Raised e"
      "st' = emit st [CallTool srv n a (Raised e)]" "r = Raised e"
  | (cancelled) srv s n a where "target env st tc = Inr (srv, s, n, a)"
      "call_tool env (length messages) s n a = Cancelled"
      "st' = emit st [CallTool srv n a Cancelled]" "r = Cancelled"
  | (returned) srv s n a res where "target env st tc = Inr (srv, s, n, a)"
      "call_tool env (length messages) s n a = Returned res"
      "st' = emit st (call_events tc srv n a res)"
      "r = Returned (messages @ [AssistantMsg (tc_id tc) n a, ToolMsg (tc_id tc) res])"
  using assms
  by (auto simp add: dispatch_def call_events_def emit_emit Let_def split: sum.splits outcome.splits prod.splits)

lemma quiet_append: "quiet (a @ b) = (quiet a \<and> quiet b)"
  by (induction a rule: quiet.induct) simp_all

lemma paired_append: "paired a \<Longrightarrow> paired b \<Longrightarrow> paired (a @ b)"
  by (induction a rule: paired.induct) simp_all

lemma creates_ok_append: "creates_ok T (a @ b) = (creates_ok T a \<and> creates_ok (T @ appended a) b)"
  by (induction T a rule: creates_ok.induct) simp_all

lemma seg_Nil: "seg T []"
  by (simp add: seg_def)

lemma seg_append: "seg T a \<Longrightarrow> seg (T @ appended a) b \<Longrightarrow> seg T (a @ b)"
  by (simp add: seg_def closes_append connected_append appended_append paired_append creates_ok_append)

lemma ending_Nil: "r \<noteq> Cancelled \<Longrightarrow> ending [] r"
  by (simp add: ending_def)

lemma ending_append:
  assumes "quiet a" and "ending b r"
  shows "ending (a @ b) r"
proof -
  from assms(2) consider
      (q) "quiet b" "r \<noteq> Cancelled"
    | (f) evs0 srv n x e where "b = evs0 @ [CallTool srv n x (Raised e)]" "quiet evs0" "r = Raised e"
    | (c) evs0 srv n x where "b = evs0 @ [CallTool srv n x Cancelled]" "quiet evs0" "r = Cancelled"
    unfolding ending_def by blast
  then show ?thesis
  proof cases
    case q
    with assms(1) show ?thesis by (simp add: ending_def quiet_append)
  next
    case f
    then have "a @ b = (a @ evs0) @ [CallTool srv n x (Raised e)]" "quiet (a @ evs0)"
      using assms(1) by (simp_all add: quiet_append)
    with f(3) show ?thesis unfolding ending_def by blast
  next
    case c
    then have "a @ b = (a @ evs0) @ [CallTool srv n x Cancelled]" "quiet (a @ evs0)"
      using assms(1) by (simp_all add: quiet_append)
    with c(3) show ?thesis unfolding ending_def by blast
  qed
qed

lemma ending_Returned: "ending evs (Returned x) \<Longrightarrow> quiet evs"
  by (auto simp add: ending_def)

lemma ending_cong: "ending evs (Raised e :: 'a outcome) \<Longrightarrow> ending evs (Raised e :: 'b outcome)"
  "ending evs (Cancelled :: 'a outcome) \<Longrightarrow> ending evs (Cancelled :: 'b outcome)"
  by (auto simp add: ending_def)

lemma dispatch_seg:
  assumes "dispatch env st messages tc = (st', r)"
  shows "\<exists>evs. st' = emit st evs \<and> seg messages evs \<and> ending evs r
           \<and> (\<forall>m'. r = Returned m' \<longrightarrow> m' = messages @ appended evs)"
  using assms
proof (cases rule: dispatch_cases)
  case (refused e)
  then show ?thesis
    by (intro exI [of _ "[]"]) (simp add: emit_Nil seg_Nil ending_Nil)
next
  case (raised srv s n a e)
  then show ?thesis
    by (intro exI [of _ "[CallTool srv n a (Raised e)]"]) (auto simp add: seg_def ending_def)
next
  case (cancelled srv s n a)
  then show ?thesis
    by (intro exI [of _ "[CallTool srv n a Cancelled]"]) (auto simp add: seg_def ending_def)
next
  case (returned srv s n a res)
  then show ?thesis
    by (intro exI [of _ "call_events tc srv n a res"]) (simp add: seg_def ending_def call_events_def)
qed

lemma for_tool_calls_seg:
  "for_tool_calls env st messages tcs = (st', r) \<Longrightarrow>
     \<exists>evs. st' = emit st evs \<and> seg messages evs \<and> ending evs r
           \<and> (\<forall>m'. r = Returned m' \<longrightarrow> m' = messages @ appended evs)"
proof (induction tcs arbitrary: st messages)
  case Nil
  then show ?case
    by (intro exI [of _ "[]"]) (auto simp add: emit_Nil seg_Nil ending_Nil)
next
  case (Cons tc tcs)
  obtain st1 r1 where d: "dispatch env st messages tc = (st1, r1)"
    by (cases "dispatch env st messages tc")
  from dispatch_seg [OF d] obtain evs1 where
    e1: "st1 = emit st evs1" "seg messages evs1" "ending evs1 r1"
        "\<forall>m'. r1 = Returned m' \<longrightarrow> m' = messages @ appended evs1"
    by blast
  show ?case
  proof (cases r1)
    case (Returned m1)
    with Cons.prems d have "for_tool_calls env st1 m1 tcs = (st', r)" by simp
    from Cons.IH [OF this] obtain evs2 where
      e2: "st' = emit st1 evs2" "seg m1 evs2" "ending evs2 r"
          "\<forall>m'. r = Returned m' \<longrightarrow> m' = m1 @ appended evs2"
      by blast
    from e1 Returned have m1: "m1 = messages @ appended evs1" by simp
    from e1 Returned have q: "quiet evs1" by (simp add: ending_Returned)
    show ?thesis
      using e1 e2 m1 q
      by (intro exI [of _ "evs1 @ evs2"])
         (simp add: emit_emit seg_append ending_append appended_append)
  next
    case (Raised e)
    with Cons.prems d have "st' = st1" "r = Raised e" by simp_all
    with e1 Raised show ?thesis by (intro exI [of _ evs1]) simp
  next
    case Cancelled
    with Cons.prems d have "st' = st1" "r = Cancelled" by simp_all
    with e1 Cancelled show ?thesis by (intro exI [of _ evs1]) simp
  qed
qed

lemma loop_body_seg:
  assumes "loop_body env tools st messages ft message = (st', r)"
  shows "\<exists>evs. st' = emit st evs \<and> seg messages evs \<and> ending evs r
           \<and> (\<forall>m' ft' msg'. r = Returned (m', ft', msg') \<longrightarrow> m' = messages @ appended evs)"
proof -
  obtain st1 r1 where f: "for_tool_calls env st messages (tool_calls message) = (st1, r1)"
    by (cases "for_tool_calls env st messages (tool_calls message)")
  from for_tool_calls_seg [OF f] obtain evs1 where
    e1: "st1 = emit st evs1" "seg messages evs1" "ending evs1 r1"
        "\<forall>m'. r1 = Returned m' \<longrightarrow> m' = messages @ appended evs1"
    by blast
  show ?thesis
  proof (cases r1)
    case (Returned m1)
    from e1 Returned have m1: "m1 = messages @ appended evs1" by simp
    from e1 Returned have q: "quiet evs1" by (simp add: ending_Returned)
    have s2: "seg messages (evs1 @ [Create m1 tools])"
      using e1(2) m1 by (intro seg_append) (simp_all add: seg_def)
    have a2: "appended (evs1 @ [Create m1 tools]) = appended evs1"
      by (simp add: appended_append)
    have q2: "quiet (evs1 @ [Create m1 tools])"
      using q by (simp add: quiet_append)
    from assms f Returned e1(1) have
      "(st', r) = (case create env m1 tools of
                     Inl e \<Rightarrow> (emit st (evs1 @ [Create m1 tools]), Raised e)
                   | Inr message1 \<Rightarrow> (emit st (evs1 @ [Create m1 tools]),
                        Returned (m1, add_content ft message1, message1)))"
      by (simp add: loop_body_def emit_emit Let_def)
    then show ?thesis
      using s2 a2 q2 m1
      by (intro exI [of _ "evs1 @ [Create m1 tools]"])
         (auto simp add: ending_def split: sum.splits)
  next
    case (Raised e)
    with assms f have "st' = st1" "r = Raised e" by (simp_all add: loop_body_def)
    with e1 Raised show ?thesis by (intro exI [of _ evs1]) (auto intro: ending_cong)
  next
    case Cancelled
    with assms f have "st' = st1" "r = Cancelled" by (simp_all add: loop_body_def)
    with e1 Cancelled show ?thesis by (intro exI [of _ evs1]) (auto intro: ending_cong)
  qed
qed

lemma while_tool_calls_seg:
  "while_tool_calls fuel env tools st messages ft message = Some (st', r) \<Longrightarrow>
     \<exists>evs. st' = emit st evs \<and> seg messages evs \<and> ending evs r"
proof (induction fuel arbitrary: st messages ft message)
  case 0
  then show ?case
    by (intro exI [of _ "[]"])
       (auto simp add: while_tool_calls.simps emit_Nil seg_Nil ending_Nil split: if_splits)
next
  case (Suc fuel)
  show ?case
  proof (cases "tool_calls message = []")
    case True
    with Suc.prems show ?thesis
      by (intro exI [of _ "[]"])
         (auto simp add: while_tool_calls.simps emit_Nil seg_Nil ending_Nil)
  next
    case False
    obtain st1 r1 where b: "loop_body env tools st messages ft message = (st1, r1)"
      by (cases "loop_body env tools st messages ft message")
    from loop_body_seg [OF b] obtain evs1 where
      e1: "st1 = emit st evs1" "seg messages evs1" "ending evs1 r1"
          "\<forall>m' ft' msg'. r1 = Returned (m', ft', msg') \<longrightarrow> m' = messages @ appended evs1"
      by blast
    show ?thesis
    proof (cases r1)
      case (Returned x)
      obtain m1 ft1 msg1 where x: "x = (m1, ft1, msg1)" by (cases x)
      from Suc.prems False b Returned x
      have "while_tool_calls fuel env tools st1 m1 ft1 msg1 = Some (st', r)"
        by (simp add: while_tool_calls.simps [of "Suc fuel"])
      from Suc.IH [OF this] obtain evs2 where
        e2: "st' = emit st1 evs2" "seg m1 evs2" "ending evs2 r"
        by blast
      from e1 Returned x have m1: "m1 = messages @ appended evs1" by simp
      from e1 Returned have q: "quiet evs1" by (simp add: ending_Returned)
      show ?thesis
        using e1 e2 m1 q
        by (intro exI [of _ "evs1 @ evs2"]) (simp add: emit_emit seg_append ending_append)
    next
      case (Raised e)
      with Suc.prems False b have "st' = st1" "r = Raised e"
        by (simp_all add: while_tool_calls.simps [of "Suc fuel"])
      with e1 Raised show ?thesis by (intro exI [of _ evs1]) (auto intro: ending_cong)
    next
      case Cancelled
      with Suc.prems False b have "st' = st1" "r = Cancelled"
        by (simp_all add: while_tool_calls.simps [of "Suc fuel"])
      with e1 Cancelled show ?thesis by (intro exI [of _ evs1]) (auto intro: ending_cong)
    qed
  qed
qed

lemma process_query_seg:
  assumes "process_query fuel env q st = Some (st', r)"
  shows "\<exists>evs. st' = emit st evs \<and> seg [UserMsg q] evs \<and> ending evs r"
proof (cases "sessions st = []")
  case True
  with assms show ?thesis
    by (intro exI [of _ "[]"]) (auto simp add: process_query_def emit_Nil seg_Nil ending_Nil)
next
  case False
  let ?tools = "available_tools_of (settion_tools st)"
  let ?c = "Create [UserMsg q] ?tools"
  show ?thesis
  proof (cases "create env [UserMsg q] ?tools")
    case (Inl e)
    with assms False show ?thesis
      by (intro exI [of _ "[?c, Log (OpenAIFailed e)]"])
         (auto simp add: process_query_def emit_emit seg_def ending_def Let_def)
  next
    case (Inr message)
    with assms False
    have "while_tool_calls fuel env ?tools (emit st [?c]) [UserMsg q] [] message = Some (st', r)"
      by (simp add: process_query_def Let_def)
    from while_tool_calls_seg [OF this] obtain evs where
      e: "st' = emit (emit st [?c]) evs" "seg [UserMsg q] evs" "ending evs r"
      by blast
    have "seg [UserMsg q] ([?c] @ evs)"
      using e(2) by (intro seg_append) (simp_all add: seg_def)
    moreover have "ending ([?c] @ evs) r"
      using e(3) by (intro ending_append) simp_all
    ultimately show ?thesis
      using e(1) by (intro exI [of _ "[?c] @ evs"]) (simp add: emit_emit)
  qed
qed

subsection \<open>Fuel\<close>

text \<open>
  Fuel only decides whether the loop is seen to end: a loop that ends with some fuel ends
  the same way with more.
\<close>

lemma while_tool_calls_more_fuel:
  "while_tool_calls fuel env tools st messages ft message = Some x \<Longrightarrow>
     while_tool_calls (fuel + k) env tools st messages ft message = Some x"
proof (induction fuel arbitrary: st messages ft message)
  case 0
  then show ?case
    by (cases "tool_calls message = []") (simp_all add: while_tool_calls.simps)
next
  case (Suc fuel)
  show ?case
  proof (cases "tool_calls message = []")
    case True
    with Suc.prems show ?thesis by (simp add: while_tool_calls.simps)
  next
    case False
    obtain st1 r1 where b: "loop_body env tools st messages ft message = (st1, r1)"
      by (cases "loop_body env tools st messages ft message")
    show ?thesis
    proof (cases r1)
      case (Returned y)
      obtain m1 ft1 msg1 where y: "y = (m1, ft1, msg1)" by (cases y)
      from Suc.prems False b Returned y
      have "while_tool_calls fuel env tools st1 m1 ft1 msg1 = Some x"
        by (simp add: while_tool_calls.simps [of "Suc fuel"])
      then have "while_tool_calls (fuel + k) env tools st1 m1 ft1 msg1 = Some x"
        by (rule Suc.IH)
      with False b Returned y show ?thesis
        by (simp add: while_tool_calls.simps [of "Suc (fuel + k)"])
    next
      case (Raised e)
      with Suc.prems False b show ?thesis
        by (simp add: while_tool_calls.simps [of "Suc fuel"] while_tool_calls.simps [of "Suc (fuel + k)"])
    next
      case Cancelled
      with Suc.prems False b show ?thesis
        by (simp add: while_tool_calls.simps [of "Suc fuel"] while_tool_calls.simps [of "Suc (fuel + k)"])
    qed
  qed
qed

lemma handle_query_more_fuel:
  assumes "handle_query fuel env user_query = Some x"
  shows "handle_query (fuel + k) env user_query = Some x"
proof -
  have p: "process_query fuel env q st = Some y \<Longrightarrow> process_query (fuel + k) env q st = Some y"
    for q st y
    by (auto simp add: process_query_def Let_def while_tool_calls_more_fuel split: if_splits sum.splits)
  have b: "handle_query_body fuel env user_query init = Some y \<Longrightarrow>
           handle_query_body (fuel + k) env user_query init = Some y" for y
    unfolding handle_query_body_def
    by (auto simp add: p split: prod.splits option.splits)
  from assms show ?thesis
    unfolding handle_query_def
    by (auto simp add: b split: option.splits)
qed

subsection \<open>The effects of connecting and of cleaning up\<close>

lemma cleanup_errors_append: "cleanup_errors (a @ b) = cleanup_errors a @ cleanup_errors b"
  by (induction a rule: cleanup_errors.induct) simp_all

lemma attempts_append: "attempts (a @ b) = attempts a @ attempts b"
  by (induction a rule: attempts.induct) simp_all

lemma connect_failures_append: "connect_failures (a @ b) = connect_failures a @ connect_failures b"
  by (induction a rule: connect_failures.induct) simp_all

lemma close_all_emit: "close_all env xs st = emit st (close_events env xs)"
proof (induction xs arbitrary: st)
  case Nil
  then show ?case by (simp add: close_events_def emit_Nil)
next
  case (Cons x xs)
  obtain n stack where x: "x = (n, stack)" by (cases x)
  show ?case
    using Cons.IH
    by (cases "aclose env stack") (simp_all add: x close_events_def emit_emit)
qed

lemma closes_close_events: "closes (close_events env xs) = map fst xs"
  by (induction xs) (auto simp add: close_events_def closes_append split: option.splits)

lemma connected_close_events: "connected (close_events env xs) = []"
  by (induction xs) (auto simp add: close_events_def connected_append split: option.splits)

lemma cleanup_errors_close_events:
  "cleanup_errors (close_events env xs) = map fst (filter (\<lambda>x. aclose env (snd x) \<noteq> None) xs)"
  by (induction xs) (auto simp add: close_events_def cleanup_errors_append split: option.splits)

lemma cleanup_effect:
  "trace (cleanup env st) = trace st @ close_events env (exit_stacks st)"
  "exit_stacks (cleanup env st) = exit_stacks st"
  by (simp_all add: cleanup_def close_all_emit emit_def)

lemma update_absent: "k \<notin> fst ` set al \<Longrightarrow> AList.update k v al = al @ [(k, v)]"
  by (induction al) auto

lemma connect_server_effect:
  assumes "n \<notin> fst ` set (sessions st)" "n \<notin> fst ` set (exit_stacks st)"
    "n \<notin> fst ` set (settion_tools st)"
  shows "\<exists>evs. trace (connect_server env n c st) = trace st @ evs
           \<and> closes evs = []
           \<and> connected evs = (if connect_ok env (n, c) then [n] else [])
           \<and> attempts evs = (if map_of c ''url'' = None then [] else [n])
           \<and> connect_failures evs = (if connect_ok env (n, c) \<and> list_ok env (n, c) then [] else [n])
           \<and> sessions (connect_server env n c st) =
                sessions st @ (if connect_ok env (n, c) then [(n, ClientSession n)] else [])
           \<and> exit_stacks (connect_server env n c st) =
                exit_stacks st @ (if connect_ok env (n, c) then [(n, AsyncExitStack n)] else [])
           \<and> settion_tools (connect_server env n c st) =
                settion_tools st @ (if connect_ok env (n, c) \<and> list_ok env (n, c) then [(n, listed env n)] else [])"
  using assms
  by (auto simp add: connect_server_def connect_ok_def list_ok_def listed_def emit_def update_absent
      Let_def split: option.splits sum.splits)

lemma fresh_tail: "fresh (p # cfg) st \<Longrightarrow> fresh cfg st"
  unfolding fresh_def by (simp add: Int_insert_left split: if_splits)

lemma fresh_head: "fresh ((n, c) # cfg) st \<Longrightarrow>
   n \<notin> fst ` set (sessions st) \<and> n \<notin> fst ` set (exit_stacks st) \<and> n \<notin> fst ` set (settion_tools st)"
  unfolding fresh_def by simp

lemma disjoint_grow: "A \<inter> B = {} \<Longrightarrow> n \<notin> A \<Longrightarrow> B' \<subseteq> insert n B \<Longrightarrow> A \<inter> B' = {}"
  by blast

lemma fresh_step:
  assumes "fresh cfg st" "n \<notin> fst ` set cfg"
    "fst ` set (sessions st1) \<subseteq> insert n (fst ` set (sessions st))"
    "fst ` set (exit_stacks st1) \<subseteq> insert n (fst ` set (exit_stacks st))"
    "fst ` set (settion_tools st1) \<subseteq> insert n (fst ` set (settion_tools st))"
  shows "fresh cfg st1"
  using assms unfolding fresh_def
  by (intro conjI) (erule conjE, erule conjE, erule (2) disjoint_grow)+

lemma connect_effect:
  "distinct (map fst cfg) \<Longrightarrow> fresh cfg st \<Longrightarrow> connect_to_sse_servers env cfg st = (st', x) \<Longrightarrow>
     \<exists>evs. trace st' = trace st @ evs
       \<and> closes evs = []
       \<and> connected evs = map fst (filter (connects env) (takeWhile has_type cfg))
       \<and> attempts evs = map fst (filter (\<lambda>p. sse p \<and> map_of (snd p) ''url'' \<noteq> None) (takeWhile has_type cfg))
       \<and> connect_failures evs = map fst (filter (\<lambda>p. sse p \<and> \<not> lists env p) (takeWhile has_type cfg))
       \<and> sessions st' = sessions st @ map (\<lambda>p. (fst p, ClientSession (fst p))) (filter (connects env) (takeWhile has_type cfg))
       \<and> exit_stacks st' = exit_stacks st @ map (\<lambda>p. (fst p, AsyncExitStack (fst p))) (filter (connects env) (takeWhile has_type cfg))
       \<and> settion_tools st' = settion_tools st @ map (\<lambda>p. (fst p, listed env (fst p))) (filter (lists env) (takeWhile has_type cfg))
       \<and> x = (if list_all has_type cfg then None else Some (KeyError ''type''))"
proof (induction cfg arbitrary: st)
  case Nil
  then show ?case by (intro exI [of _ "[]"]) auto
next
  case (Cons p cfg)
  obtain n c where p: "p = (n, c)" by (cases p)
  from Cons.prems(1) p have d: "distinct (map fst cfg)" and nn: "n \<notin> fst ` set cfg" by auto
  show ?case
  proof (cases "has_type p")
    case False
    with Cons.prems(3) p show ?thesis
      by (intro exI [of _ "[]"]) (auto simp add: has_type_def)
  next
    case ht: True
    show ?thesis
    proof (cases "sse p")
      case False
      from Cons.prems(2) have f: "fresh cfg st" by (rule fresh_tail)
      from ht False Cons.prems(3) p have "connect_to_sse_servers env cfg st = (st', x)"
        by (auto simp add: has_type_def sse_def)
      from Cons.IH [OF d f this] obtain evs where "trace st' = trace st @ evs
       \<and> closes evs = []
       \<and> connected evs = map fst (filter (connects env) (takeWhile has_type cfg))
       \<and> attempts evs = map fst (filter (\<lambda>p. sse p \<and> map_of (snd p) ''url'' \<noteq> None) (takeWhile has_type cfg))
       \<and> connect_failures evs = map fst (filter (\<lambda>p. sse p \<and> \<not> lists env p) (takeWhile has_type cfg))
       \<and> sessions st' = sessions st @ map (\<lambda>p. (fst p, ClientSession (fst p))) (filter (connects env) (takeWhile has_type cfg))
       \<and> exit_stacks st' = exit_stacks st @ map (\<lambda>p. (fst p, AsyncExitStack (fst p))) (filter (connects env) (takeWhile has_type cfg))
       \<and> settion_tools st' = settion_tools st @ map (\<lambda>p. (fst p, listed env (fst p))) (filter (lists env) (takeWhile has_type cfg))
       \<and> x = (if list_all has_type cfg then None else Some (KeyError ''type''))" by blast
      moreover from False have "\<not> connects env p" "\<not> lists env p"
        by (simp_all add: connects_def lists_def)
      ultimately show ?thesis
        using ht False by (intro exI [of _ evs]) simp
    next
      case True
      let ?st1 = "connect_server env n c st"
      from Cons.prems(2) have fr: "n \<notin> fst ` set (sessions st)" "n \<notin> fst ` set (exit_stacks st)"
        "n \<notin> fst ` set (settion_tools st)"
        unfolding p by (simp_all add: fresh_head)
      from connect_server_effect [OF fr, of env c] obtain evs1 where e1:
        "trace ?st1 = trace st @ evs1"
        "closes evs1 = []"
        "connected evs1 = (if connect_ok env (n, c) then [n] else [])"
        "attempts evs1 = (if map_of c ''url'' = None then [] else [n])"
        "connect_failures evs1 = (if connect_ok env (n, c) \<and> list_ok env (n, c) then [] else [n])"
        "sessions ?st1 = sessions st @ (if connect_ok env (n, c) then [(n, ClientSession n)] else [])"
        "exit_stacks ?st1 = exit_stacks st @ (if connect_ok env (n, c) then [(n, AsyncExitStack n)] else [])"
        "settion_tools ?st1 = settion_tools st @ (if connect_ok env (n, c) \<and> list_ok env (n, c) then [(n, listed env n)] else [])"
        by blast
      have sub:
        "fst ` set (sessions ?st1) \<subseteq> insert n (fst ` set (sessions st))"
        "fst ` set (exit_stacks ?st1) \<subseteq> insert n (fst ` set (exit_stacks st))"
        "fst ` set (settion_tools ?st1) \<subseteq> insert n (fst ` set (settion_tools st))"
        unfolding e1(6) e1(7) e1(8) by auto
      from Cons.prems(2) have "fresh cfg st" by (rule fresh_tail)
      from this nn sub have f: "fresh cfg ?st1" by (rule fresh_step)
      from True Cons.prems(3) p have "connect_to_sse_servers env cfg ?st1 = (st', x)"
        by (simp add: sse_def)
      from Cons.IH [OF d f this] obtain evs where e2: "trace st' = trace ?st1 @ evs"
       "closes evs = []"
       "connected evs = map fst (filter (connects env) (takeWhile has_type cfg))"
       "attempts evs = map fst (filter (\<lambda>p. sse p \<and> map_of (snd p) ''url'' \<noteq> None) (takeWhile has_type cfg))"
       "connect_failures evs = map fst (filter (\<lambda>p. sse p \<and> \<not> lists env p) (takeWhile has_type cfg))"
       "sessions st' = sessions ?st1 @ map (\<lambda>p. (fst p, ClientSession (fst p))) (filter (connects env) (takeWhile has_type cfg))"
       "exit_stacks st' = exit_stacks ?st1 @ map (\<lambda>p. (fst p, AsyncExitStack (fst p))) (filter (connects env) (takeWhile has_type cfg))"
       "settion_tools st' = settion_tools ?st1 @ map (\<lambda>p. (fst p, listed env (fst p))) (filter (lists env) (takeWhile has_type cfg))"
       "x = (if list_all has_type cfg then None else Some (KeyError ''type''))" by blast
      from ht True p have k: "connects env p = connect_ok env (n, c)"
        "lists env p = (connect_ok env (n, c) \<and> list_ok env (n, c))"
        by (simp_all add: connects_def lists_def)
      have tw: "takeWhile has_type (p # cfg) = p # takeWhile has_type cfg"
        and la: "list_all has_type (p # cfg) = list_all has_type cfg"
        using ht by simp_all
      have f1: "filter (connects env) (p # T) =
                  (if connect_ok env (n, c) then [p] else []) @ filter (connects env) T" for T
        using k by simp
      have f2: "filter (lists env) (p # T) =
                  (if connect_ok env (n, c) \<and> list_ok env (n, c) then [p] else []) @ filter (lists env) T" for T
        using k by simp
      have f3: "filter (\<lambda>p. sse p \<and> map_of (snd p) ''url'' \<noteq> None) (p # T) =
                  (if map_of c ''url'' = None then [] else [p])
                  @ filter (\<lambda>p. sse p \<and> map_of (snd p) ''url'' \<noteq> None) T" for T
        using True by (simp add: p)
      have f4: "filter (\<lambda>p. sse p \<and> \<not> lists env p) (p # T) =
                  (if connect_ok env (n, c) \<and> list_ok env (n, c) then [] else [p])
                  @ filter (\<lambda>p. sse p \<and> \<not> lists env p) T" for T
        using True k by simp
      have fp: "fst p = n" by (simp add: p)
      show ?thesis
        unfolding tw la f1 f2 f3 f4
        using e1 e2
        by (intro exI [of _ "evs1 @ evs"])
           (simp add: closes_append connected_append attempts_append connect_failures_append fp)
    qed
  qed
qed

subsection \<open>Teardown\<close>

lemma scenario_run:
  "handle_query 2 scenario_env scenario_query = Some (scenario_final, Inr (Response ''Found 3 results.''))"
  by code_simp

lemma fresh_init: "fresh cfg init"
  by (simp add: fresh_def init_def)

lemma distinct_names_filter_takeWhile:
  "distinct (map fst cfg) \<Longrightarrow> distinct (map fst (filter P (takeWhile Q cfg)))"
proof -
  assume d: "distinct (map fst cfg)"
  have "map fst (takeWhile Q cfg) = take (length (takeWhile Q cfg)) (map fst cfg)"
    by (subst takeWhile_eq_take) (rule take_map [symmetric])
  with d have "distinct (map fst (takeWhile Q cfg))" by simp
  then show ?thesis by (rule distinct_map_filter)
qed

lemma names_of_stacks: "map fst (map (\<lambda>p. (fst p, AsyncExitStack (fst p))) xs) = map fst xs"
  by (induction xs) simp_all

lemma stacks_of_names:
  "map (\<lambda>p. (fst p, AsyncExitStack (fst p))) xs = map (\<lambda>n. (n, AsyncExitStack n)) (map fst xs)"
  by (induction xs) simp_all

lemma handle_query_body_effect:
  assumes d: "distinct (map fst (mcpServers (mcp_config user_query)))"
    and h: "handle_query_body fuel env user_query init = Some (st0, r0)"
  shows "closes (trace st0) = []"
    and "connected (trace st0) = map fst (exit_stacks st0)"
    and "distinct (map fst (exit_stacks st0))"
    and "exit_stacks st0 = map (\<lambda>n. (n, AsyncExitStack n)) (map fst (exit_stacks st0))"
proof -
  let ?cfg = "mcpServers (mcp_config user_query)"
  obtain st1 x where c: "connect_to_sse_servers env ?cfg init = (st1, x)"
    by (cases "connect_to_sse_servers env ?cfg init")
  from connect_effect [OF d fresh_init c] obtain evs where e:
    "trace st1 = trace init @ evs" "closes evs = []"
    "connected evs = map fst (filter (connects env) (takeWhile has_type ?cfg))"
    "exit_stacks st1 = exit_stacks init @ map (\<lambda>p. (fst p, AsyncExitStack (fst p)))
                         (filter (connects env) (takeWhile has_type ?cfg))"
    by blast
  have i: "trace init = []" "exit_stacks init = []" by (simp_all add: init_def)
  have s1: "closes (trace st1) = []"
    "connected (trace st1) = map fst (exit_stacks st1)"
    "distinct (map fst (exit_stacks st1))"
    "exit_stacks st1 = map (\<lambda>n. (n, AsyncExitStack n)) (map fst (exit_stacks st1))"
  proof -
    let ?F = "filter (connects env) (takeWhile has_type ?cfg)"
    from e(4) i have x1: "exit_stacks st1 = map (\<lambda>p. (fst p, AsyncExitStack (fst p))) ?F"
      by simp
    then have n1: "map fst (exit_stacks st1) = map fst ?F"
      by (simp only: names_of_stacks)
    show "closes (trace st1) = []" using e(1,2) i by simp
    show "connected (trace st1) = map fst (exit_stacks st1)"
      using e(1,3) i n1 by simp
    show "distinct (map fst (exit_stacks st1))"
      unfolding n1 using d by (rule distinct_names_filter_takeWhile)
    show "exit_stacks st1 = map (\<lambda>n. (n, AsyncExitStack n)) (map fst (exit_stacks st1))"
      unfolding n1 unfolding x1 by (rule stacks_of_names)
  qed
  have "\<exists>evs2. st0 = emit st1 evs2 \<and> closes evs2 = [] \<and> connected evs2 = []"
  proof (cases x)
    case (Some e)
    with h c have "st0 = st1" by (simp add: handle_query_body_def)
    then show ?thesis by (intro exI [of _ "[]"]) (simp add: emit_Nil)
  next
    case None
    with h c obtain st2 r where p: "process_query fuel env (query user_query) st1 = Some (st2, r)"
      and st0: "st0 = st2"
      by (auto simp add: handle_query_body_def split: option.splits sum.splits if_splits)
    from process_query_seg [OF p] st0 show ?thesis
      by (auto simp add: seg_def)
  qed
  then obtain evs2 where e2: "st0 = emit st1 evs2" "closes evs2 = []" "connected evs2 = []"
    by blast
  show "closes (trace st0) = []"
    using s1(1) e2 by (simp add: emit_fields closes_append)
  show "connected (trace st0) = map fst (exit_stacks st0)"
    using s1(2) e2 by (simp add: emit_fields connected_append)
  show "distinct (map fst (exit_stacks st0))"
    using s1(3) e2 by (simp add: emit_fields)
  show "exit_stacks st0 = map (\<lambda>n. (n, AsyncExitStack n)) (map fst (exit_stacks st0))"
    using s1(4) e2(1) by (simp only: emit_fields)
qed

lemma cleanup_errors_of_names:
  "cleanup_errors (close_events env (map (\<lambda>n. (n, AsyncExitStack n)) ns)) =
     filter (\<lambda>n. aclose env (AsyncExitStack n) \<noteq> None) ns"
  by (induction ns) (simp_all add: close_events_def cleanup_errors_append split: option.splits)

text \<open>
  C2: on every exit path of a request, the events of the request are those of the body
  followed by those of the teardown; the body closes nothing; the teardown tries to close
  every session that was registered, once each and in the order of registration, whether
  or not a close fails; and every failed close is logged.
\<close>

theorem teardown_closes_every_session_once:
  assumes "distinct (map fst (mcpServers (mcp_config user_query)))"
    and "handle_query fuel env user_query = Some (st, r)"
  shows "\<exists>body teardown.
           trace st = body @ teardown
           \<and> closes body = []
           \<and> closes teardown = connected body
           \<and> distinct (closes teardown)
           \<and> closes teardown = map fst (exit_stacks st)
           \<and> connected teardown = []
           \<and> cleanup_errors teardown
               = filter (\<lambda>n. aclose env (AsyncExitStack n) \<noteq> None) (closes teardown)"
proof -
  from assms(2) obtain st0 r0 where b: "handle_query_body fuel env user_query init = Some (st0, r0)"
    by (auto simp add: handle_query_def split: option.splits)
  note f = handle_query_body_effect [OF assms(1) b]
  define lg where "lg = (case r0 of Inl e \<Rightarrow> [Log (ErrorProcessing e)] | Inr x \<Rightarrow> [])"
  have st: "st = cleanup env (emit st0 lg)"
    using assms(2) b by (auto simp add: handle_query_def lg_def emit_Nil split: sum.splits)
  have lgc: "closes lg = []" "connected lg = []"
    by (simp_all add: lg_def split: sum.splits)
  let ?body = "trace st0 @ lg"
  let ?td = "close_events env (exit_stacks st0)"
  have t: "trace st = ?body @ ?td" and x: "exit_stacks st = exit_stacks st0"
    by (simp_all add: st cleanup_effect emit_fields)
  have c1: "closes ?body = []"
    using f(1) lgc by (simp add: closes_append)
  have c2: "closes ?td = connected ?body"
    using f(2) lgc by (simp add: closes_close_events connected_append)
  have c3: "distinct (closes ?td)"
    using f(3) by (simp add: closes_close_events)
  have c4: "closes ?td = map fst (exit_stacks st)"
    by (simp add: closes_close_events x)
  have c5: "connected ?td = []"
    by (rule connected_close_events)
  have "cleanup_errors (close_events env (map (\<lambda>n. (n, AsyncExitStack n)) (map fst (exit_stacks st0))))
          = filter (\<lambda>n. aclose env (AsyncExitStack n) \<noteq> None) (map fst (exit_stacks st0))"
    by (rule cleanup_errors_of_names)
  then have c6: "cleanup_errors ?td = filter (\<lambda>n. aclose env (AsyncExitStack n) \<noteq> None) (closes ?td)"
    using f(4) by (simp add: closes_close_events)
  from t c1 c2 c3 c4 c5 c6 show ?thesis by blast
qed

lemma two_run: "handle_query 2 two_env two_query = Some (two_final, Inr (Response ''done''))"
  by code_simp

theorem teardown_closes_every_session_once_witness:
  "distinct (map fst (mcpServers (mcp_config two_query)))
   \<and> handle_query 2 two_env two_query = Some (two_final, Inr (Response ''done''))
   \<and> (\<exists>body teardown. trace two_final = body @ teardown \<and> closes body = []
          \<and> closes teardown = connected body
          \<and> closes teardown = [''a'', ''b'']
          \<and> cleanup_errors teardown = [''a''])"
proof -
  have d: "distinct (map fst (mcpServers (mcp_config two_query)))"
    by (simp add: two_query_def)
  from teardown_closes_every_session_once [OF d two_run]
  obtain body teardown where t:
    "trace two_final = body @ teardown"
    "closes body = []" "closes teardown = connected body"
    "closes teardown = map fst (exit_stacks two_final)"
    "cleanup_errors teardown = filter (\<lambda>n. aclose two_env (AsyncExitStack n) \<noteq> None) (closes teardown)"
    by auto
  from t(4) have c: "closes teardown = [''a'', ''b'']" by (simp add: two_final_def)
  from t(5) have "cleanup_errors teardown = [''a'']"
    unfolding c by (simp add: two_env_def)
  with d two_run t(1,2,3) c show ?thesis by blast
qed

subsection \<open>What the caller is answered\<close>

text \<open>
  When the first response of the model asks for no tool, \<^verbatim>\<open>process_query\<close> returns the
  empty string, whatever text the response has.
\<close>

lemma direct_answer_gives_empty:
  assumes "sessions st \<noteq> []"
    and "create env [UserMsg q] (available_tools_of (settion_tools st)) = Inr (ChatMessage c [])"
  shows "process_query fuel env q st
           = Some (emit st [Create [UserMsg q] (available_tools_of (settion_tools st))], Returned [])"
  using assms by (simp add: process_query_def Let_def while_tool_calls.simps)

text \<open>
  C3 does not hold of the code. With one provider connected and a model whose first
  response has the text \<open>T\<close> and no tool call, the request succeeds with the empty
  string: the only append to \<^verbatim>\<open>final_text\<close> (line 180) is inside the loop, after the
  second and later calls of the model, and the append for the first response (line 123) is
  commented out.
\<close>

theorem first_answer_is_dropped:
  "handle_query 2 direct_env scenario_query = Some (direct_final, Inr (Response []))"
  by code_simp

text \<open>
  C4 does not hold of the code. With no provider, \<^verbatim>\<open>process_query\<close> raises the 400
  of line 77 before any call of the model, and the generic \<^verbatim>\<open>except\<close> clause of the
  handler turns it into a 500; this for every environment. The same happens to the 400 of
  line 134 for a name that does not match the pattern, and an index that is out of range
  raises \<^verbatim>\<open>IndexError\<close> on line 141, also answered with 500; in both cases no tool
  is called.
\<close>

theorem status_400_never_reaches_the_caller:
  "handle_query fuel env \<lparr>query = q, mcp_config = \<lparr>mcpServers = []\<rparr>\<rparr>
     = Some (init\<lparr>trace := [Log (ErrorProcessing (HTTPException 400 NoActiveConnections))]\<rparr>,
             Inl (HTTPException 500 (Str (HTTPException 400 NoActiveConnections))))
   \<and> (\<exists>st. handle_query 2 malformed_env scenario_query
              = Some (st, Inl (HTTPException 500 (Str (HTTPException 400 (InvalidToolCallFormat ''search'')))))
            \<and> tool_calls_made (trace st) = 0)
   \<and> (\<exists>st. handle_query 2 out_of_range_env scenario_query
              = Some (st, Inl (HTTPException 500 (Str IndexError)))
            \<and> tool_calls_made (trace st) = 0)"
proof (intro conjI)
  show "handle_query fuel env \<lparr>query = q, mcp_config = \<lparr>mcpServers = []\<rparr>\<rparr>
     = Some (init\<lparr>trace := [Log (ErrorProcessing (HTTPException 400 NoActiveConnections))]\<rparr>,
             Inl (HTTPException 500 (Str (HTTPException 400 NoActiveConnections))))"
    by (simp add: handle_query_def handle_query_body_def process_query_def wait_for_def init_def
        cleanup_def emit_def)
  have "handle_query 2 malformed_env scenario_query
          = Some (\<lparr>sessions = [], settion_tools = [],
                   exit_stacks = [(''a'', AsyncExitStack ''a'')],
                   trace = [Connect ''a'' ''http://a'' None,
                            ListTools ''a'' (Inr [Tool ''search'' ''web search'' ''{}'']),
                            Create [UserMsg ''how many cats''] [Function ''server_0_search'' ''web search'' ''{}''],
                            Log (ErrorProcessing (HTTPException 400 (InvalidToolCallFormat ''search''))),
                            Close ''a'']\<rparr>,
                  Inl (HTTPException 500 (Str (HTTPException 400 (InvalidToolCallFormat ''search'')))))"
    by code_simp
  then show "\<exists>st. handle_query 2 malformed_env scenario_query
              = Some (st, Inl (HTTPException 500 (Str (HTTPException 400 (InvalidToolCallFormat ''search'')))))
            \<and> tool_calls_made (trace st) = 0"
    by (simp add: tool_calls_made_def)
  have "handle_query 2 out_of_range_env scenario_query
          = Some (\<lparr>sessions = [], settion_tools = [],
                   exit_stacks = [(''a'', AsyncExitStack ''a'')],
                   trace = [Connect ''a'' ''http://a'' None,
                            ListTools ''a'' (Inr [Tool ''search'' ''web search'' ''{}'']),
                            Create [UserMsg ''how many cats''] [Function ''server_0_search'' ''web search'' ''{}''],
                            Log (ErrorProcessing IndexError),
                            Close ''a'']\<rparr>,
                  Inl (HTTPException 500 (Str IndexError)))"
    by code_simp
  then show "\<exists>st. handle_query 2 out_of_range_env scenario_query
              = Some (st, Inl (HTTPException 500 (Str IndexError)))
            \<and> tool_calls_made (trace st) = 0"
    by (simp add: tool_calls_made_def)
qed

text \<open>
  C10: an exception \<open>e0\<close> that leaves the body of the handler, whatever it is, reaches
  the caller as the 500 whose detail is \<^verbatim>\<open>str(e0)\<close>, after the error is logged and the
  client cleaned up; and every failure the caller sees is such a 500.
\<close>

theorem every_failure_is_answered_500:
  "(handle_query_body fuel env user_query init = Some (st0, Inl e0) \<longrightarrow>
      handle_query fuel env user_query
        = Some (cleanup env (emit st0 [Log (ErrorProcessing e0)]), Inl (HTTPException 500 (Str e0))))
   \<and> (handle_query fuel env user_query = Some (st, Inl e) \<longrightarrow>
        (\<exists>st0 e0. handle_query_body fuel env user_query init = Some (st0, Inl e0)
                  \<and> e = HTTPException 500 (Str e0)))"
  by (auto simp add: handle_query_def split: option.splits sum.splits)

lemma no_provider_body:
  "handle_query_body 2 scenario_env no_provider_query init
     = Some (init, Inl (HTTPException 400 NoActiveConnections))"
  by code_simp

lemma expiring_body:
  "handle_query_body 2 expiring_env scenario_query init
     = Some (expiring_state, Inl (HTTPException 504 RequestTimeout))"
  by code_simp

theorem every_failure_is_answered_500_witness:
  "(\<exists>st. handle_query 2 scenario_env no_provider_query
            = Some (st, Inl (HTTPException 500 (Str (HTTPException 400 NoActiveConnections)))))
   \<and> (\<exists>st. handle_query 2 expiring_env scenario_query
            = Some (st, Inl (HTTPException 500 (Str (HTTPException 504 RequestTimeout)))))"
proof -
  have a: "handle_query 2 scenario_env no_provider_query
             = Some (cleanup scenario_env (emit init [Log (ErrorProcessing (HTTPException 400 NoActiveConnections))]),
                     Inl (HTTPException 500 (Str (HTTPException 400 NoActiveConnections))))"
    by (rule every_failure_is_answered_500 [THEN conjunct1, THEN mp, OF no_provider_body])
  have b: "handle_query 2 expiring_env scenario_query
             = Some (cleanup expiring_env (emit expiring_state [Log (ErrorProcessing (HTTPException 504 RequestTimeout))]),
                     Inl (HTTPException 500 (Str (HTTPException 504 RequestTimeout))))"
    by (rule every_failure_is_answered_500 [THEN conjunct1, THEN mp, OF expiring_body])
  from a b show ?thesis by blast
qed

subsection \<open>A tool call that fails, and the deadline\<close>

lemma quiet_close_events: "quiet (close_events env xs)"
  by (induction xs) (auto simp add: close_events_def quiet_append split: option.splits)

lemma connect_server_quiet:
  "\<exists>evs. trace (connect_server env n c st) = trace st @ evs \<and> quiet evs"
  by (auto simp add: connect_server_def emit_def Let_def split: option.splits sum.splits)

lemma connect_quiet:
  "connect_to_sse_servers env cfg st = (st', x) \<Longrightarrow> \<exists>evs. trace st' = trace st @ evs \<and> quiet evs"
proof (induction cfg arbitrary: st)
  case Nil
  then show ?case by simp
next
  case (Cons p cfg)
  obtain n c where p: "p = (n, c)" by (cases p)
  show ?case
  proof (cases "map_of c ''type''")
    case None
    with Cons.prems p show ?thesis by simp
  next
    case (Some ty)
    let ?st1 = "if ty = ''sse'' then connect_server env n c st else st"
    from Some Cons.prems p have "connect_to_sse_servers env cfg ?st1 = (st', x)"
      by (simp split: if_splits)
    from Cons.IH [OF this] obtain evs2 where e2: "trace st' = trace ?st1 @ evs2" "quiet evs2"
      by blast
    obtain evs1 where e1: "trace ?st1 = trace st @ evs1" "quiet evs1"
      using connect_server_quiet [of env n c st] by (cases "ty = ''sse''") auto
    from e1 e2 have "trace st' = trace st @ (evs1 @ evs2)" "quiet (evs1 @ evs2)"
      by (simp_all add: quiet_append)
    then show ?thesis by blast
  qed
qed

lemma not_quiet_Cons: "\<not> quiet [c] \<Longrightarrow> \<not> quiet (c # xs)"
  using quiet_append [of "[c]" xs] by simp

lemma quiet_split_unique:
  assumes "quiet p" "quiet s" "\<not> quiet [d]" "p @ c # s = pre @ d # post"
  shows "pre = p \<and> d = c \<and> post = s"
proof -
  from assms(4) consider
      (a) us where "p = pre @ us" "us @ c # s = d # post"
    | (b) us where "p @ us = pre" "c # s = us @ d # post"
    by (auto simp add: append_eq_append_conv2)
  then show ?thesis
  proof cases
    case a
    show ?thesis
    proof (cases us)
      case Nil
      with a show ?thesis by simp
    next
      case (Cons u us')
      with a have "p = pre @ d # us'" by simp
      with assms(1) have "quiet (d # us')" by (simp add: quiet_append)
      with assms(3) show ?thesis by (simp add: not_quiet_Cons)
    qed
  next
    case b
    show ?thesis
    proof (cases us)
      case Nil
      with b show ?thesis by simp
    next
      case (Cons u us')
      with b have "s = us' @ d # post" by simp
      with assms(2) have "quiet (d # post)" by (simp add: quiet_append)
      with assms(3) show ?thesis by (simp add: not_quiet_Cons)
    qed
  qed
qed

text \<open>
  A tool call that does not return is the last thing a request does before it logs the
  error and cleans up, and the request fails with what that call raised, or with the 504
  of line 196 when the call was cancelled or raised a \<^verbatim>\<open>TimeoutError\<close>, wrapped in the
  500 of line 199.
\<close>

lemma failed_call_ends_the_request:
  assumes h: "handle_query fuel env user_query = Some (st, r)"
    and t: "trace st = pre @ CallTool srv n a oc # post"
    and oc: "\<not> quiet [CallTool srv n a oc]"
  shows "r = Inl (HTTPException 500 (Str (raised_by oc)))
         \<and> post = Log (ErrorProcessing (raised_by oc)) # close_events env (exit_stacks st)"
proof -
  let ?c = "CallTool srv n a oc"
  from h obtain st0 r0 where b: "handle_query_body fuel env user_query init = Some (st0, r0)"
    by (auto simp add: handle_query_def split: option.splits)
  define lg where "lg = (case r0 of Inl e \<Rightarrow> [Log (ErrorProcessing e)] | Inr x \<Rightarrow> [])"
  have st: "st = cleanup env (emit st0 lg)"
    and r: "r = (case r0 of Inl e \<Rightarrow> Inl (HTTPException 500 (Str e)) | Inr x \<Rightarrow> Inr x)"
    using h b by (auto simp add: handle_query_def lg_def emit_Nil split: sum.splits)
  have qlg: "quiet lg" by (simp add: lg_def split: sum.splits)
  let ?ce = "close_events env (exit_stacks st0)"
  have tr: "trace st = trace st0 @ lg @ ?ce" and xs: "exit_stacks st = exit_stacks st0"
    by (simp_all add: st cleanup_effect emit_fields)
  have qs: "quiet (lg @ ?ce)"
    using qlg by (simp add: quiet_append quiet_close_events)
  have nq: "\<not> quiet (trace st)"
    unfolding t using oc by (simp add: quiet_append not_quiet_Cons)
  let ?cfg = "mcpServers (mcp_config user_query)"
  obtain st1 x where c: "connect_to_sse_servers env ?cfg init = (st1, x)"
    by (cases "connect_to_sse_servers env ?cfg init")
  from connect_quiet [OF c] obtain evc where ec: "trace st1 = evc" "quiet evc"
    by (auto simp add: init_def)
  show ?thesis
  proof (cases x)
    case (Some e)
    with b c have "st0 = st1" by (simp add: handle_query_body_def)
    with tr ec qs have "quiet (trace st)" by (simp add: quiet_append)
    with nq show ?thesis by simp
  next
    case None
    with b c obtain st2 rq where p: "process_query fuel env (query user_query) st1 = Some (st2, rq)"
      and st0: "st0 = st2"
      and r0: "r0 = (case wait_for rq of
                       Inr response \<Rightarrow> Inr (Response response)
                     | Inl e \<Rightarrow> if e = TimeoutError then Inl (HTTPException 504 RequestTimeout) else Inl e)"
      by (auto simp add: handle_query_body_def split: option.splits sum.splits if_splits)
    from process_query_seg [OF p] obtain evs where e: "st2 = emit st1 evs" "ending evs rq"
      by blast
    have tr2: "trace st = evc @ evs @ lg @ ?ce"
      using tr st0 e(1) ec(1) by (simp add: emit_fields)
    from e(2) consider
        (q) "quiet evs"
      | (f) evs0 srv' n' a' e' where "evs = evs0 @ [CallTool srv' n' a' (Raised e')]"
          "quiet evs0" "rq = Raised e'"
      | (k) evs0 srv' n' a' where "evs = evs0 @ [CallTool srv' n' a' Cancelled]"
          "quiet evs0" "rq = Cancelled"
      unfolding ending_def by blast
    then show ?thesis
    proof cases
      case q
      with tr2 ec(2) qs have "quiet (trace st)" by (simp add: quiet_append)
      with nq show ?thesis by simp
    next
      case f
      have eq: "(evc @ evs0) @ CallTool srv' n' a' (Raised e') # (lg @ ?ce) = pre @ ?c # post"
        using tr2 t f(1) by simp
      have qp: "quiet (evc @ evs0)" using ec(2) f(2) by (simp add: quiet_append)
      from quiet_split_unique [OF qp qs oc eq]
      have u: "?c = CallTool srv' n' a' (Raised e')" "post = lg @ ?ce"
        by simp_all
      from u(1) have o: "oc = Raised e'" by simp
      from f(3) r0 o have r0': "r0 = Inl (raised_by oc)"
        by (simp add: wait_for_def raised_by_def)
      with r u(2) xs show ?thesis by (simp add: lg_def)
    next
      case k
      have eq: "(evc @ evs0) @ CallTool srv' n' a' Cancelled # (lg @ ?ce) = pre @ ?c # post"
        using tr2 t k(1) by simp
      have qp: "quiet (evc @ evs0)" using ec(2) k(2) by (simp add: quiet_append)
      from quiet_split_unique [OF qp qs oc eq]
      have u: "?c = CallTool srv' n' a' Cancelled" "post = lg @ ?ce"
        by simp_all
      from u(1) have o: "oc = Cancelled" by simp
      from k(3) r0 o have r0': "r0 = Inl (raised_by oc)"
        by (simp add: wait_for_def raised_by_def)
      with r u(2) xs show ?thesis by (simp add: lg_def)
    qed
  qed
qed









lemma connect_raises_only_KeyError:
  "connect_to_sse_servers env cfg st = (st', Some e) \<Longrightarrow> e = KeyError ''type''"
proof (induction cfg arbitrary: st)
  case Nil
  then show ?case by simp
next
  case (Cons p cfg)
  obtain n c where p: "p = (n, c)" by (cases p)
  show ?case
  proof (cases "map_of c ''type''")
    case None
    with Cons.prems p show ?thesis by simp
  next
    case (Some ty)
    with Cons.prems p have
      "connect_to_sse_servers env cfg (if ty = ''sse'' then connect_server env n c st else st) = (st', Some e)"
      by (simp split: if_splits)
    then show ?thesis by (rule Cons.IH)
  qed
qed

text \<open>
  The 504 of line 196 can only come up once the connect phase is over: it takes a
  \<^verbatim>\<open>process_query\<close> that was cancelled at the deadline, or that raised a
  \<^verbatim>\<open>TimeoutError\<close> or that very 504 itself.
\<close>

lemma timeout_only_from_the_loop:
  assumes "handle_query_body fuel env user_query init = Some (st, Inl (HTTPException 504 RequestTimeout))"
  shows "\<exists>st1 r. connect_to_sse_servers env (mcpServers (mcp_config user_query)) init = (st1, None)
           \<and> process_query fuel env (query user_query) st1 = Some (st, r)
           \<and> (r = Cancelled \<or> r = Raised TimeoutError \<or> r = Raised (HTTPException 504 RequestTimeout))"
proof -
  let ?cfg = "mcpServers (mcp_config user_query)"
  obtain st1 x where c: "connect_to_sse_servers env ?cfg init = (st1, x)"
    by (cases "connect_to_sse_servers env ?cfg init")
  show ?thesis
  proof (cases x)
    case (Some e)
    with c have "e = KeyError ''type''" by (simp add: connect_raises_only_KeyError)
    with assms c Some show ?thesis by (simp add: handle_query_body_def)
  next
    case None
    with assms c obtain r where p: "process_query fuel env (query user_query) st1 = Some (st, r)"
      and w: "(case wait_for r of Inl e \<Rightarrow> if e = TimeoutError then HTTPException 504 RequestTimeout else e)
                = HTTPException 504 RequestTimeout"
        "\<exists>e. wait_for r = Inl e"
      by (auto simp add: handle_query_body_def split: option.splits sum.splits if_splits)
    from w have "r = Cancelled \<or> r = Raised TimeoutError \<or> r = Raised (HTTPException 504 RequestTimeout)"
      by (cases r) (auto simp add: wait_for_def split: if_splits)
    with c None p show ?thesis by blast
  qed
qed

text \<open>
  For every environment: a tool call that the deadline cancels is followed by the log of
  the error and the teardown only, and the caller is answered the 500 that wraps the 504.
\<close>

lemma cancelled_call_ends_the_request:
  assumes "handle_query fuel env user_query = Some (st, r)"
    and "trace st = pre @ CallTool srv n a Cancelled # post"
  shows "r = Inl (HTTPException 500 (Str (HTTPException 504 RequestTimeout)))
         \<and> post = Log (ErrorProcessing (HTTPException 504 RequestTimeout))
                  # close_events env (exit_stacks st)"
proof -
  have "\<not> quiet [CallTool srv n a Cancelled]" by simp
  from failed_call_ends_the_request [OF assms this] show ?thesis
    by (simp add: raised_by_def)
qed

text \<open>
  C5 does not hold of the code. When the deadline of line 192 expires while the tool call
  of the first request is awaited, \<^verbatim>\<open>wait_for\<close> raises \<^verbatim>\<open>TimeoutError\<close>, line 196
  raises the 504, and the generic \<^verbatim>\<open>except\<close> clause of lines 197 to 199 catches it: the
  caller is answered 500. The call is cancelled, nothing more is done in the loop, and the
  teardown still runs.
\<close>

theorem deadline_expiry_is_answered_500:
  "handle_query 2 expiring_env scenario_query
     = Some (expiring_final, Inl (HTTPException 500 (Str (HTTPException 504 RequestTimeout))))
   \<and> status_code (HTTPException 500 (Str (HTTPException 504 RequestTimeout))) \<noteq> 504
   \<and> closes (trace expiring_final) = [''a'']"
  by code_simp

subsection \<open>Connecting to the providers\<close>

text \<open>
  A provider whose configuration has no \<open>type\<close> makes the connect phase raise: line 44
  reads \<^verbatim>\<open>server_config['type']\<close> outside the \<^verbatim>\<open>try\<close>.
\<close>

lemma connect_raises_without_type:
  "connect_to_sse_servers env ((n, [(''url'', u)]) # rest) st = (st, Some (KeyError ''type''))"
  by simp

text \<open>
  C6, as stated, fails: a provider that connects and then fails to list its tools is in the
  session map (lines 51 and 52 store the session before line 56 lists the tools), though
  not in the tool catalog.
\<close>

theorem session_without_tools_counterexample:
  "connect_to_sse_servers no_tools_env (mcpServers (mcp_config scenario_query)) init
     = (no_tools_state, None)
   \<and> map fst (sessions no_tools_state) = [''a'']
   \<and> map fst (settion_tools no_tools_state) = []
   \<and> filter (lists no_tools_env) (mcpServers (mcp_config scenario_query)) = []"
  by code_simp

text \<open>
  C6 (amended): when every provider of the list has a \<open>type\<close> in its configuration, the
  connect phase does not raise; a connection is tried to every provider of type sse that
  has a url, in the order of the list, whatever happened to the providers before it; every
  provider of type sse that did not both connect and list its tools is logged; the tool
  catalog holds exactly the providers that connected and listed their tools, with the
  tools they listed; and the session map holds exactly the providers that connected.
\<close>

theorem best_effort_connect:
  assumes "distinct (map fst cfg)" and "list_all has_type cfg"
  shows "\<exists>st. connect_to_sse_servers env cfg init = (st, None)
           \<and> attempts (trace st) = map fst (filter (\<lambda>p. sse p \<and> map_of (snd p) ''url'' \<noteq> None) cfg)
           \<and> connect_failures (trace st) = map fst (filter (\<lambda>p. sse p \<and> \<not> lists env p) cfg)
           \<and> settion_tools st = map (\<lambda>p. (fst p, listed env (fst p))) (filter (lists env) cfg)
           \<and> sessions st = map (\<lambda>p. (fst p, ClientSession (fst p))) (filter (connects env) cfg)"
proof -
  obtain st x where c: "connect_to_sse_servers env cfg init = (st, x)"
    by (cases "connect_to_sse_servers env cfg init")
  from assms(2) have tw: "takeWhile has_type cfg = cfg"
    by (simp add: list_all_iff)
  from connect_effect [OF assms(1) fresh_init c] obtain evs where e:
    "trace st = trace init @ evs"
    "attempts evs = map fst (filter (\<lambda>p. sse p \<and> map_of (snd p) ''url'' \<noteq> None) cfg)"
    "connect_failures evs = map fst (filter (\<lambda>p. sse p \<and> \<not> lists env p) cfg)"
    "sessions st = sessions init @ map (\<lambda>p. (fst p, ClientSession (fst p))) (filter (connects env) cfg)"
    "settion_tools st = settion_tools init @ map (\<lambda>p. (fst p, listed env (fst p))) (filter (lists env) cfg)"
    "x = (if list_all has_type cfg then None else Some (KeyError ''type''))"
    unfolding tw by blast
  have i: "trace init = []" "sessions init = []" "settion_tools init = []"
    by (simp_all add: init_def)
  from e(6) assms(2) have "x = None" by simp
  with c e(1-5) show ?thesis
    unfolding i by (intro exI [of _ st]) simp
qed

theorem best_effort_connect_witness:
  "distinct (map fst three_providers) \<and> list_all has_type three_providers
   \<and> (\<exists>st. connect_to_sse_servers refusing_env three_providers init = (st, None)
          \<and> attempts (trace st) = [''a'', ''c'']
          \<and> connect_failures (trace st) = [''c'']
          \<and> settion_tools st = [(''a'', [Tool ''search'' ''web search'' ''{}''])]
          \<and> sessions st = [(''a'', ClientSession ''a'')])"
proof -
  have d: "distinct (map fst three_providers)" by code_simp
  have h: "list_all has_type three_providers" by code_simp
  have f: "map fst (filter (\<lambda>p. sse p \<and> map_of (snd p) ''url'' \<noteq> None) three_providers) = [''a'', ''c'']"
    "map fst (filter (\<lambda>p. sse p \<and> \<not> lists refusing_env p) three_providers) = [''c'']"
    "map (\<lambda>p. (fst p, listed refusing_env (fst p))) (filter (lists refusing_env) three_providers)
       = [(''a'', [Tool ''search'' ''web search'' ''{}''])]"
    "map (\<lambda>p. (fst p, ClientSession (fst p))) (filter (connects refusing_env) three_providers)
       = [(''a'', ClientSession ''a'')]"
    by code_simp+
  from best_effort_connect [OF d h, of refusing_env] show ?thesis
    unfolding f using d h by simp
qed

subsection \<open>The rounds of the loop\<close>




lemma two_loop:
  "process_query 2 two_env ''q'' two_connected = Some (two_round_state, Returned ''done'')"
  by code_simp






subsection \<open>The transcript\<close>

lemma preceded_from_tail: "preceded_from prev (m # ms) \<Longrightarrow> preceded_from (Some m) ms"
  by (cases m) simp_all

lemma preceded_from_head:
  "preceded_from prev (ToolMsg t c # ms) \<Longrightarrow> \<exists>n a. prev = Some (AssistantMsg t n a)"
  by (auto split: option.splits message.splits)

lemma preceded_from_nth:
  "preceded_from prev ms \<Longrightarrow> i < length ms \<Longrightarrow> ms ! i = ToolMsg t c \<Longrightarrow>
     (if i = 0 then \<exists>n a. prev = Some (AssistantMsg t n a)
      else \<exists>n a. ms ! (i - 1) = AssistantMsg t n a)"
proof (induction ms arbitrary: prev i)
  case Nil
  then show ?case by simp
next
  case (Cons m ms)
  show ?case
  proof (cases i)
    case 0
    with Cons.prems have "preceded_from prev (ToolMsg t c # ms)" by simp
    then have "\<exists>n a. prev = Some (AssistantMsg t n a)"
      by (rule preceded_from_head)
    with 0 show ?thesis by simp
  next
    case (Suc k)
    from Cons.prems(1) have "preceded_from (Some m) ms"
      by (rule preceded_from_tail)
    moreover from Cons.prems Suc have "k < length ms" "ms ! k = ToolMsg t c"
      by simp_all
    ultimately have "if k = 0 then \<exists>n a. Some m = Some (AssistantMsg t n a)
                     else \<exists>n a. ms ! (k - 1) = AssistantMsg t n a"
      by (rule Cons.IH)
    with Suc show ?thesis
      by (cases k) auto
  qed
qed

text \<open>The same, read by position.\<close>

lemma tool_entries_preceded_nth:
  assumes "tool_entries_preceded ms" "i < length ms" "ms ! i = ToolMsg t c"
  shows "0 < i \<and> (\<exists>n a. ms ! (i - 1) = AssistantMsg t n a)"
  using preceded_from_nth [OF assms [unfolded tool_entries_preceded_def]]
  by (cases "i = 0") simp_all

lemma preceded_from_prefix: "preceded_from prev (xs @ ys) \<Longrightarrow> preceded_from prev xs"
  by (induction prev xs rule: preceded_from.induct) simp_all

lemma paired_preceded: "paired ms \<Longrightarrow> preceded_from prev ms"
  by (induction ms arbitrary: prev rule: paired.induct) simp_all

lemma creates_ok_tail:
  "creates_ok T (ev # evs) \<Longrightarrow> creates_ok (T @ appended [ev]) evs"
  by (cases ev) simp_all

lemma creates_ok_head: "creates_ok T (Create msgs tools # evs) \<Longrightarrow> msgs = T"
  by simp

lemma creates_ok_nth:
  "creates_ok T evs \<Longrightarrow> k < length evs \<Longrightarrow> evs ! k = Create msgs tools \<Longrightarrow>
     msgs = T @ appended (take k evs)"
proof (induction evs arbitrary: T k)
  case Nil
  then show ?case by simp
next
  case (Cons ev evs)
  show ?case
  proof (cases k)
    case 0
    with Cons.prems have "creates_ok T (Create msgs tools # evs)" by simp
    then have "msgs = T" by (rule creates_ok_head)
    with 0 show ?thesis by simp
  next
    case (Suc j)
    from Cons.prems(1) have "creates_ok (T @ appended [ev]) evs"
      by (rule creates_ok_tail)
    moreover from Cons.prems Suc have "j < length evs" "evs ! j = Create msgs tools"
      by simp_all
    ultimately have "msgs = (T @ appended [ev]) @ appended (take j evs)"
      by (rule Cons.IH)
    moreover have "appended (take k (ev # evs)) = appended [ev] @ appended (take j evs)"
      using appended_append [of "[ev]" "take j evs"] Suc by simp
    ultimately show ?thesis by simp
  qed
qed

lemma tool_entries_preceded_User:
  "tool_entries_preceded (UserMsg q # ms) = preceded_from (Some (UserMsg q)) ms"
  by (simp add: tool_entries_preceded_def)

text \<open>The predicate does refuse a tool entry that has no assistant entry before it.\<close>

lemma tool_entry_alone_is_refused:
  "\<not> tool_entries_preceded [UserMsg ''q'', ToolMsg ''c1'' ''result of a'']"
  by (simp add: tool_entries_preceded_def)

lemma transcript_at_grows:
  assumes "j \<le> k"
  shows "\<exists>more. transcript_at q evs k = transcript_at q evs j @ more"
proof -
  from assms have "take k evs = take j evs @ take (k - j) (drop j evs)"
    using take_add [of j "k - j" evs] by simp
  then show ?thesis
    by (simp add: transcript_at_def appended_append)
qed

text \<open>
  C9: at every point of \<^verbatim>\<open>process_query\<close>, that is after any number \<open>k\<close> of its
  effects, every tool entry of the transcript comes right after an assistant entry with
  the same tool-call id; the transcript at a later point is the transcript at an earlier
  point with entries added at its end; and every call of the model is given the transcript
  of that point.
\<close>

theorem transcript_invariant:
  assumes "process_query fuel env q st = Some (st', r)"
  shows "\<exists>evs. trace st' = trace st @ evs
           \<and> (\<forall>k. tool_entries_preceded (transcript_at q evs k))
           \<and> (\<forall>j k. j \<le> k \<longrightarrow> (\<exists>more. transcript_at q evs k = transcript_at q evs j @ more))
           \<and> (\<forall>k msgs tools. k < length evs \<longrightarrow> evs ! k = Create msgs tools \<longrightarrow>
                 msgs = transcript_at q evs k)"
proof -
  from process_query_seg [OF assms] obtain evs where
    e: "st' = emit st evs" "seg [UserMsg q] evs"
    by blast
  from e(2) have p: "paired (appended evs)" and c: "creates_ok [UserMsg q] evs"
    by (simp_all add: seg_def)
  have t: "trace st' = trace st @ evs"
    using e(1) by (simp add: emit_fields)
  have a: "tool_entries_preceded (transcript_at q evs k)" for k
  proof -
    have "appended evs = appended (take k evs) @ appended (drop k evs)"
      using appended_append [of "take k evs" "drop k evs"] by simp
    moreover from p have "preceded_from (Some (UserMsg q)) (appended evs)"
      by (rule paired_preceded)
    ultimately have "preceded_from (Some (UserMsg q)) (appended (take k evs))"
      using preceded_from_prefix by metis
    then show ?thesis
      by (simp add: transcript_at_def tool_entries_preceded_User)
  qed
  have b: "j \<le> k \<longrightarrow> (\<exists>more. transcript_at q evs k = transcript_at q evs j @ more)" for j k
    using transcript_at_grows by blast
  have d: "k < length evs \<longrightarrow> evs ! k = Create msgs tools \<longrightarrow> msgs = transcript_at q evs k"
    for k msgs tools
    using creates_ok_nth [OF c] by (simp add: transcript_at_def)
  from t a b d show ?thesis by blast
qed

theorem transcript_invariant_witness:
  "process_query 2 two_env ''q'' two_connected = Some (two_round_state, Returned ''done'')
   \<and> (\<exists>evs. trace two_round_state = trace two_connected @ evs
          \<and> (\<forall>k. tool_entries_preceded (transcript_at ''q'' evs k))
          \<and> (\<forall>j k. j \<le> k \<longrightarrow> (\<exists>more. transcript_at ''q'' evs k = transcript_at ''q'' evs j @ more))
          \<and> (\<forall>k msgs tools. k < length evs \<longrightarrow> evs ! k = Create msgs tools \<longrightarrow>
                msgs = transcript_at ''q'' evs k))"
  by (rule conjI [OF two_loop transcript_invariant [OF two_loop]])

end
